theory Spec2Isabelle
  imports Main "HOL-Library.Finite_Map"
begin

section \<open>Archiver for Google Photos: the archival pipeline of gparch.py\<close>

text \<open>
  The development embeds the functions of \<^verbatim>\<open>src/gparch.py\<close> that implement the
  archival pipeline: the naming helpers \<^verbatim>\<open>auto_mkdir\<close> and \<^verbatim>\<open>auto_filename\<close>, the
  paged listing loop of \<^verbatim>\<open>list_media_items\<close>, \<^verbatim>\<open>process_media_items\<close>, the worker
  \<^verbatim>\<open>download_media_item\<close>, the draining loop \<^verbatim>\<open>download\<close> and the media table of
  the SQLite database.

  Conventions of the embedding.
  \<^item> The file system is a finite map from path strings to nodes. \<^verbatim>\<open>os.path.exists\<close> is
    membership in its domain, \<^verbatim>\<open>os.path.isfile\<close> holds of file nodes only.
  \<^item> What the program cannot decide itself (the answer of the remote endpoint, whether a
    file can be opened for writing, what each libxmp call does) is read from an
    environment record; every call that the source guards with \<^verbatim>\<open>try\<close> may raise there.
  \<^item> Python's unbounded integers are \<^typ>\<open>nat\<close> for the instance counters (they start at 0 and
    only grow) and \<^typ>\<open>int\<close> for string positions (\<^verbatim>\<open>rfind\<close> answers -1).
  \<^item> The recursion of the naming helpers is mathematical recursion: the interpreter's
    recursion limit is not modelled.
  \<^item> A path is the string the program spells it with: two spellings of one directory
    (with and without a trailing slash, say) are two paths here.  The program builds its
    paths by joining a directory, a slash and a sanitized name, each in one way only.
  \<^item> The threads of the pool share the file system and interleave at every access to it;
    a file handle is taken for the path it was opened on.
  \<^item> The statements on the SQLite connection are taken to succeed; only the media table
    is modelled, the albums table plays no part in the properties below.
\<close>

subsection \<open>Strings\<close>

text \<open>\<^verbatim>\<open>str(n)\<close> of a non-negative integer: its decimal digits, most significant first.\<close>

definition digit_char :: "nat \<Rightarrow> char" where
  "digit_char d = ''0123456789'' ! d"

fun str_nat :: "nat \<Rightarrow> string" where
  "str_nat n = (if n < 10 then [digit_char n] else str_nat (n div 10) @ [digit_char (n mod 10)])"

declare str_nat.simps [simp del]

text \<open>The value of a digit character; used only to show that \<open>str_nat\<close> is injective.\<close>

definition digit_val :: "char \<Rightarrow> nat" where
  "digit_val c = length (takeWhile (\<lambda>d. d \<noteq> c) ''0123456789'')"

definition nat_of_str :: "string \<Rightarrow> nat" where
  "nat_of_str s = foldl (\<lambda>a c. 10 * a + digit_val c) 0 s"

text \<open>\<^verbatim>\<open>s.rfind(c)\<close>: the highest index at which \<open>c\<close> occurs in \<open>s\<close>, or -1.\<close>

fun rfind :: "string \<Rightarrow> char \<Rightarrow> int" where
  "rfind [] c = -1"
| "rfind (x # xs) c =
     (let r = rfind xs c in if r \<noteq> -1 then r + 1 else if x = c then 0 else -1)"

text \<open>
  Python slice bounds: a negative bound counts from the end, and every bound is clamped
  to the string. \<open>slice_to s k\<close> is \<^verbatim>\<open>s[:k]\<close> and \<open>slice_from s k\<close> is \<^verbatim>\<open>s[k:]\<close>.
\<close>

definition slice_bound :: "nat \<Rightarrow> int \<Rightarrow> nat" where
  "slice_bound n k = (if k < 0 then nat (max 0 (int n + k)) else min (nat k) n)"

definition slice_to :: "string \<Rightarrow> int \<Rightarrow> string" where
  "slice_to s k = take (slice_bound (length s) k) s"

definition slice_from :: "string \<Rightarrow> int \<Rightarrow> string" where
  "slice_from s k = drop (slice_bound (length s) k) s"

text \<open>\<^verbatim>\<open>needle in s\<close> on strings: \<open>needle\<close> occurs in \<open>s\<close> as a contiguous substring.\<close>

fun starts_with :: "string \<Rightarrow> string \<Rightarrow> bool" where
  "starts_with [] s = True"
| "starts_with (n # ns) [] = False"
| "starts_with (n # ns) (c # cs) = (n = c \<and> starts_with ns cs)"

fun contains :: "string \<Rightarrow> string \<Rightarrow> bool" where
  "contains needle [] = starts_with needle []"
| "contains needle (c # cs) = (starts_with needle (c # cs) \<or> contains needle cs)"

subsection \<open>The file system\<close>

type_synonym path = string

text \<open>
  An XMP packet is its list of properties (qualified name, value).  A file holds the bytes
  that were streamed into it (\<open>Raw\<close>), the same bytes with a packet written into them by
  \<^verbatim>\<open>put_xmp\<close> and a successful close (\<open>Updated\<close>), or a serialised packet (\<open>Packet\<close>,
  the content of a sidecar).
\<close>

type_synonym xmp = "(string \<times> string) list"

datatype content = Raw string | Updated string xmp | Packet xmp

datatype node = Dir | File content

type_synonym fs = "(path, node) fmap"

definition exists_path :: "fs \<Rightarrow> path \<Rightarrow> bool" where
  "exists_path fs p = (fmlookup fs p \<noteq> None)"

definition isfile :: "fs \<Rightarrow> path \<Rightarrow> bool" where
  "isfile fs p = (case fmlookup fs p of Some (File c) \<Rightarrow> True | _ \<Rightarrow> False)"

subsection \<open>Exceptions\<close>

text \<open>
  The exceptions that leave a function of the program uncaught: the KeyError of a subscript
  on a dictionary of the remote answer, with its key, and the OSError of \<^verbatim>\<open>os.mkdir\<close>.
\<close>

datatype error = KeyError string | OSError

subsection \<open>Collision-free names: \<^verbatim>\<open>auto_mkdir\<close> and \<^verbatim>\<open>auto_filename\<close>\<close>

text \<open>The path that \<^verbatim>\<open>auto_mkdir\<close> tries at a given instance number.\<close>

definition mkdir_candidate :: "path \<Rightarrow> nat \<Rightarrow> path" where
  "mkdir_candidate path instance =
     (if instance \<noteq> 0 then path @ '' ('' @ str_nat instance @ '')'' else path)"

text \<open>The path that \<^verbatim>\<open>auto_filename\<close> tries at a given instance number.\<close>

definition filename_candidate :: "path \<Rightarrow> nat \<Rightarrow> path" where
  "filename_candidate path instance =
     (if instance \<noteq> 0 then
        (let extension_index = rfind path CHR ''.'' in
           slice_to path extension_index @ '' ('' @ str_nat instance @ '')''
             @ slice_from path extension_index)
      else path)"

text \<open>
  Both helpers recurse on the instance number until the candidate is unused.  The file
  system is finite and the candidates of different instance numbers differ, so the
  recursion ends: the lemmas below are what the termination proofs need.
\<close>

lemma digit_val_digit_char: "d < 10 \<Longrightarrow> digit_val (digit_char d) = d"
proof -
  have "\<forall>k\<in>set [0..<10]. digit_val (digit_char k) = k" by code_simp
  moreover assume "d < 10"
  ultimately show ?thesis by simp
qed

lemma nat_of_str_append:
  "nat_of_str (s @ [c]) = 10 * nat_of_str s + digit_val c"
  by (simp add: nat_of_str_def)

lemma nat_of_str_str_nat: "nat_of_str (str_nat n) = n"
proof (induction n rule: str_nat.induct)
  case (1 n)
  show ?case
  proof (cases "n < 10")
    case True
    then show ?thesis
      by (subst str_nat.simps) (simp add: nat_of_str_def digit_val_digit_char)
  next
    case False
    then have "nat_of_str (str_nat (n div 10)) = n div 10" using 1 by simp
    with False show ?thesis
      by (subst str_nat.simps) (simp add: nat_of_str_append digit_val_digit_char)
  qed
qed

lemma str_nat_inj: "str_nat m = str_nat n \<Longrightarrow> m = n"
  by (metis nat_of_str_str_nat)

lemma mkdir_candidate_inj: "mkdir_candidate p m = mkdir_candidate p n \<Longrightarrow> m = n"
proof -
  assume h: "mkdir_candidate p m = mkdir_candidate p n"
  have len: "\<And>k. k \<noteq> 0 \<Longrightarrow> length (mkdir_candidate p k) > length p"
    by (simp add: mkdir_candidate_def)
  show ?thesis
  proof (cases "m = 0")
    case True
    then show ?thesis using h len [of n] by (cases "n = 0") (auto simp: mkdir_candidate_def)
  next
    case False
    show ?thesis
    proof (cases "n = 0")
      case True
      then show ?thesis using h len [of m] False by (auto simp: mkdir_candidate_def)
    next
      case n: False
      with False h show ?thesis by (simp add: mkdir_candidate_def str_nat_inj)
    qed
  qed
qed

lemma filename_candidate_inj: "filename_candidate p m = filename_candidate p n \<Longrightarrow> m = n"
proof -
  assume h: "filename_candidate p m = filename_candidate p n"
  have tk: "\<And>k. slice_to p k @ slice_from p k = p"
    by (simp add: slice_to_def slice_from_def)
  have len: "\<And>k. k \<noteq> 0 \<Longrightarrow> length (filename_candidate p k) > length p"
  proof -
    fix k :: nat assume "k \<noteq> 0"
    have "length (slice_to p (rfind p CHR ''.'')) + length (slice_from p (rfind p CHR ''.'')) = length p"
      using tk [of "rfind p CHR ''.''"] by (metis length_append)
    then show "length (filename_candidate p k) > length p"
      using \<open>k \<noteq> 0\<close> by (simp add: filename_candidate_def Let_def)
  qed
  show ?thesis
  proof (cases "m = 0")
    case True
    then show ?thesis using h len [of n] by (cases "n = 0") (auto simp: filename_candidate_def)
  next
    case False
    show ?thesis
    proof (cases "n = 0")
      case True
      then show ?thesis using h len [of m] False by (auto simp: filename_candidate_def)
    next
      case n: False
      with False h show ?thesis by (simp add: filename_candidate_def Let_def str_nat_inj)
    qed
  qed
qed

lemma taken_finite:
  assumes "\<And>m n. cand m = cand n \<Longrightarrow> m = n"
  shows "finite {n::nat. cand n \<in> fmdom' (fs::fs)}"
proof -
  have "inj cand" using assms by (auto simp: inj_def)
  then have "finite (cand -` fmdom' fs)" by (simp add: finite_vimageI)
  then show ?thesis by (simp add: vimage_def)
qed

lemma taken_decreases:
  assumes inj: "\<And>m n. cand m = cand n \<Longrightarrow> m = n"
    and ex: "exists_path fs (cand i)"
  shows "card {n. Suc i \<le> n \<and> cand n \<in> fmdom' fs} < card {n. i \<le> n \<and> cand n \<in> fmdom' fs}"
proof -
  have fin: "finite {n. i \<le> n \<and> cand n \<in> fmdom' fs}"
    using taken_finite [of cand fs, OF inj] by simp
  have "i \<in> {n. i \<le> n \<and> cand n \<in> fmdom' fs}"
    using ex by (auto simp: exists_path_def fmlookup_dom'_iff)
  moreover have "i \<notin> {n. Suc i \<le> n \<and> cand n \<in> fmdom' fs}" by simp
  moreover have "{n. Suc i \<le> n \<and> cand n \<in> fmdom' fs} \<subseteq> {n. i \<le> n \<and> cand n \<in> fmdom' fs}" by auto
  ultimately have "{n. Suc i \<le> n \<and> cand n \<in> fmdom' fs} \<subset> {n. i \<le> n \<and> cand n \<in> fmdom' fs}"
    by blast
  then show ?thesis using fin by (rule psubset_card_mono [rotated])
qed

text \<open>
  \<^verbatim>\<open>auto_mkdir\<close> calls \<^verbatim>\<open>os.mkdir\<close> on the first candidate that does not exist and returns
  the absolute path of the directory, and the file system with that directory.  Whether
  \<^verbatim>\<open>os.mkdir\<close> raises for a path (a missing parent directory, a name that is too long, no
  permission) is for the system to say: \<open>mkdir_raises\<close> answers it from the file system and
  the path.  The function does not guard the call, so the OSError leaves it and no further
  candidate is tried.  \<open>abspath\<close> stands for \<^verbatim>\<open>os.path.abspath\<close>, which depends on the working
  directory.
\<close>

function auto_mkdir ::
  "(fs \<Rightarrow> path \<Rightarrow> bool) \<Rightarrow> (path \<Rightarrow> path) \<Rightarrow> fs \<Rightarrow> path \<Rightarrow> nat \<Rightarrow> error + path \<times> fs" where
  "auto_mkdir mkdir_raises abspath fs path instance =
     (let new_path = mkdir_candidate path instance in
        if \<not> exists_path fs new_path then
          (if mkdir_raises fs new_path then Inl OSError
           else Inr (abspath new_path, fmupd new_path Dir fs))
        else auto_mkdir mkdir_raises abspath fs path (instance + 1))"
  by pat_completeness auto
termination
proof (relation "measure (\<lambda>(mkdir_raises, abspath, fs, path, i).
    card {n. i \<le> n \<and> mkdir_candidate path n \<in> fmdom' fs})")
  show "wf (measure (\<lambda>(mkdir_raises, abspath, fs, path, i).
    card {n. i \<le> n \<and> mkdir_candidate path n \<in> fmdom' fs}))" by simp
next
  fix mkdir_raises :: "fs \<Rightarrow> path \<Rightarrow> bool" and abspath :: "path \<Rightarrow> path"
    and fs :: fs and path :: path and i :: nat and x
  assume "x = mkdir_candidate path i" and "\<not> \<not> exists_path fs x"
  then have "exists_path fs (mkdir_candidate path i)" by simp
  then show "((mkdir_raises, abspath, fs, path, i + 1), (mkdir_raises, abspath, fs, path, i))
      \<in> measure (\<lambda>(mkdir_raises, abspath, fs, path, i).
          card {n. i \<le> n \<and> mkdir_candidate path n \<in> fmdom' fs})"
    using taken_decreases [of "mkdir_candidate path" fs i] mkdir_candidate_inj by simp
qed

declare auto_mkdir.simps [simp del]

text \<open>\<^verbatim>\<open>auto_filename\<close> only looks for a free name; it creates nothing.\<close>

function auto_filename :: "fs \<Rightarrow> path \<Rightarrow> nat \<Rightarrow> path" where
  "auto_filename fs path instance =
     (let new_path = filename_candidate path instance in
        if \<not> exists_path fs new_path then new_path
        else auto_filename fs path (instance + 1))"
  by pat_completeness auto
termination
proof (relation "measure (\<lambda>(fs, path, i). card {n. i \<le> n \<and> filename_candidate path n \<in> fmdom' fs})")
  show "wf (measure (\<lambda>(fs, path, i). card {n. i \<le> n \<and> filename_candidate path n \<in> fmdom' fs}))" by simp
next
  fix fs :: fs and path :: path and i :: nat and x
  assume "x = filename_candidate path i" and "\<not> \<not> exists_path fs x"
  then have "exists_path fs (filename_candidate path i)" by simp
  then show "((fs, path, i + 1), (fs, path, i))
      \<in> measure (\<lambda>(fs, path, i). card {n. i \<le> n \<and> filename_candidate path n \<in> fmdom' fs})"
    using taken_decreases [of "filename_candidate path" fs i] filename_candidate_inj by simp
qed

declare auto_filename.simps [simp del]

subsection \<open>Remote listing: \<^verbatim>\<open>list_media_items\<close>\<close>

text \<open>
  A remote media item is a JSON object; every key the program reads may be missing.
  A response of the listing endpoint is an object with the optional keys
  \<^verbatim>\<open>mediaItems\<close> and \<^verbatim>\<open>nextPageToken\<close>; the empty object is the response without either.
\<close>

record media_metadata =
  creationTime :: "string option"

record item =
  item_id :: "string option"
  item_filename :: "string option"
  item_description :: "string option"
  item_mimeType :: "string option"
  item_baseUrl :: "string option"
  item_mediaMetadata :: "media_metadata option"

record page =
  mediaItems :: "item list option"
  nextPageToken :: "string option"

text \<open>
  \<^verbatim>\<open>not request\<close>: the response is the empty object (a response that is \<^verbatim>\<open>None\<close> takes the
  same branch).
\<close>

definition empty_response :: "page \<Rightarrow> bool" where
  "empty_response request = (mediaItems request = None \<and> nextPageToken request = None)"

text \<open>
  The \<^verbatim>\<open>while True\<close> loop of \<^verbatim>\<open>list_media_items\<close>.  The endpoint is a function of the
  page token (\<open>None\<close> for the first call).  The loop ends when a response carries no
  token; a server that always sends one keeps it running, which is the value \<open>None\<close>.
  The debug dumps (\<^verbatim>\<open>self.debug\<close>) write files that are never read back and are left out.
  For an empty first response the function returns an empty dictionary, which is the
  empty list here: the callers only iterate over the result.
\<close>

partial_function (option) list_loop ::
  "(string option \<Rightarrow> page) \<Rightarrow> page \<Rightarrow> item list \<Rightarrow> item list option" where
  "list_loop service request media_items_list =
     (let media_items_list =
            (case mediaItems request of
               Some xs \<Rightarrow> media_items_list @ xs
             | None \<Rightarrow> media_items_list)
      in case nextPageToken request of
           Some next_page \<Rightarrow> list_loop service (service (Some next_page)) media_items_list
         | None \<Rightarrow> Some media_items_list)"

definition list_media_items :: "(string option \<Rightarrow> page) \<Rightarrow> item list option" where
  "list_media_items service =
     (let request = service None in
        if empty_response request then Some [] else list_loop service request [])"

text \<open>The items a response carries, and a chain of responses linked by their tokens.\<close>

definition page_items :: "page \<Rightarrow> item list" where
  "page_items request = (case mediaItems request of Some xs \<Rightarrow> xs | None \<Rightarrow> [])"

fun served :: "(string option \<Rightarrow> page) \<Rightarrow> page \<Rightarrow> page list \<Rightarrow> bool" where
  "served service request [] = (nextPageToken request = None)"
| "served service request (q # qs) =
     (case nextPageToken request of
        None \<Rightarrow> False
      | Some next_page \<Rightarrow> service (Some next_page) = q \<and> served service q qs)"

subsection \<open>The media table\<close>

text \<open>
  The table \<^verbatim>\<open>media (uuid text, path text, album_uuid text)\<close> is the list of its rows in
  insertion order; it has no key and no uniqueness constraint.  \<^verbatim>\<open>fetchone\<close> answers
  the first matching row.
\<close>

type_synonym media_row = "string \<times> path \<times> string option"

definition select_media_item :: "media_row list \<Rightarrow> string \<Rightarrow> media_row option" where
  "select_media_item media uuid = find (\<lambda>row. fst row = uuid) media"

definition insert_media_item ::
  "media_row list \<Rightarrow> string \<Rightarrow> path \<Rightarrow> string option \<Rightarrow> media_row list" where
  "insert_media_item media uuid path album_uuid = media @ [(uuid, path, album_uuid)]"

subsection \<open>\<^verbatim>\<open>process_media_items\<close>\<close>

text \<open>The tuple \<^verbatim>\<open>(id, album_uuid, url, item_path, description, creationTime)\<close>.\<close>

record entry =
  e_uuid :: string
  e_album_uuid :: "string option"
  e_url :: string
  e_path :: path
  e_description :: "string option"
  e_creation_time :: "string option"

text \<open>
  The tuple appended for an image or a video: reading \<^verbatim>\<open>item["baseUrl"]\<close> and
  \<^verbatim>\<open>item["mediaMetadata"]["creationTime"]\<close> raises KeyError when the key is missing.
\<close>

definition media_entry ::
  "string \<Rightarrow> string option \<Rightarrow> path \<Rightarrow> string \<Rightarrow> item \<Rightarrow> error + entry" where
  "media_entry uuid album_uuid item_path suffix item =
     (case item_baseUrl item of
        None \<Rightarrow> Inl (KeyError ''baseUrl'')
      | Some base \<Rightarrow>
          (case item_mediaMetadata item of
             None \<Rightarrow> Inl (KeyError ''mediaMetadata'')
           | Some meta \<Rightarrow>
               (case creationTime meta of
                  None \<Rightarrow> Inl (KeyError ''creationTime'')
                | Some created \<Rightarrow>
                    Inr \<lparr>e_uuid = uuid, e_album_uuid = album_uuid, e_url = base @ suffix,
                         e_path = item_path, e_description = item_description item,
                         e_creation_time = Some created\<rparr>)))"

text \<open>
  The path of an item: the stored path of its first row when the table has one, else
  the save directory, a slash and the sanitized file name (\<^verbatim>\<open>item["filename"]\<close> raises
  KeyError when missing).  \<^verbatim>\<open>sanitize\<close> is the function of the package
  \<^verbatim>\<open>sanitize_filename\<close>, a parameter here.
\<close>

definition item_path_of ::
  "(string \<Rightarrow> string) \<Rightarrow> media_row list \<Rightarrow> path \<Rightarrow> string \<Rightarrow> item \<Rightarrow> error + path" where
  "item_path_of sanitize media save_directory uuid item =
     (case select_media_item media uuid of
        None \<Rightarrow>
          (case item_filename item of
             None \<Rightarrow> Inl (KeyError ''filename'')
           | Some name \<Rightarrow> Inr (save_directory @ ''/'' @ sanitize name))
      | Some item_db_entry \<Rightarrow> Inr (fst (snd item_db_entry)))"

text \<open>
  One round of the \<^verbatim>\<open>for\<close> loop: \<open>Inr None\<close> when nothing is appended.  The only key
  with a default is \<^verbatim>\<open>description\<close>.
\<close>

definition process_item ::
  "(string \<Rightarrow> string) \<Rightarrow> media_row list \<Rightarrow> path \<Rightarrow> string option \<Rightarrow> item
     \<Rightarrow> error + entry option" where
  "process_item sanitize media save_directory album_uuid item =
     (case item_id item of
        None \<Rightarrow> Inl (KeyError ''id'')
      | Some uuid \<Rightarrow>
          (case item_path_of sanitize media save_directory uuid item of
             Inl e \<Rightarrow> Inl e
           | Inr item_path \<Rightarrow>
               (case item_mimeType item of
                  None \<Rightarrow> Inl (KeyError ''mimeType'')
                | Some mime \<Rightarrow>
                    if contains ''image'' mime then
                      map_sum id Some (media_entry uuid album_uuid item_path ''=d'' item)
                    else if contains ''video'' mime then
                      map_sum id Some (media_entry uuid album_uuid item_path ''=dv'' item)
                    else Inr None)))"

fun process_loop ::
  "(string \<Rightarrow> string) \<Rightarrow> media_row list \<Rightarrow> path \<Rightarrow> string option \<Rightarrow> entry list \<Rightarrow> item list
     \<Rightarrow> error + entry list" where
  "process_loop sanitize media save_directory album_uuid acc [] = Inr acc"
| "process_loop sanitize media save_directory album_uuid acc (item # items) =
     (case process_item sanitize media save_directory album_uuid item of
        Inl e \<Rightarrow> Inl e
      | Inr None \<Rightarrow> process_loop sanitize media save_directory album_uuid acc items
      | Inr (Some e) \<Rightarrow>
          process_loop sanitize media save_directory album_uuid (acc @ [e]) items)"

definition process_media_items ::
  "(string \<Rightarrow> string) \<Rightarrow> media_row list \<Rightarrow> item list \<Rightarrow> path \<Rightarrow> string option
     \<Rightarrow> error + entry list" where
  "process_media_items sanitize media media_items save_directory album_uuid =
     process_loop sanitize media save_directory album_uuid [] media_items"

text \<open>An item that \<^verbatim>\<open>process_media_items\<close> appends an entry for.\<close>

definition is_media :: "item \<Rightarrow> bool" where
  "is_media item =
     (case item_mimeType item of
        None \<Rightarrow> False
      | Some mime \<Rightarrow> contains ''image'' mime \<or> contains ''video'' mime)"

text \<open>An item that carries every key the loop reads for it.\<close>

definition has_required_keys :: "media_row list \<Rightarrow> item \<Rightarrow> bool" where
  "has_required_keys media item =
     (case item_id item of
        None \<Rightarrow> False
      | Some uuid \<Rightarrow>
          (select_media_item media uuid \<noteq> None \<or> item_filename item \<noteq> None)
          \<and> item_mimeType item \<noteq> None
          \<and> (is_media item \<longrightarrow>
                item_baseUrl item \<noteq> None
                \<and> (case item_mediaMetadata item of
                      None \<Rightarrow> False
                    | Some meta \<Rightarrow> creationTime meta \<noteq> None)))"

subsection \<open>The environment of a download\<close>

text \<open>A call into the network, the file system or libxmp either raises or returns.\<close>

datatype 'a raising = Raises | Returns 'a

text \<open>
  The response of \<^verbatim>\<open>requests.get(url, stream=True)\<close>: its status code, the chunks that
  \<^verbatim>\<open>iter_content\<close> yields, and whether the stream raises after the last of them.
\<close>

record response =
  status_code :: int
  chunks :: "string list"
  stream_breaks :: bool

text \<open>
  What the libxmp calls made on one file do: whether the \<^verbatim>\<open>XMPFiles\<close> constructor returns,
  what \<^verbatim>\<open>get_xmp\<close> answers (\<open>None\<close>: no packet), whether \<^verbatim>\<open>set_property\<close> returns,
  what \<^verbatim>\<open>can_put_xmp\<close> answers, whether \<^verbatim>\<open>put_xmp\<close>, the close with
  \<^verbatim>\<open>XMP_CLOSE_SAFEUPDATE\<close>, \<^verbatim>\<open>serialize_to_str\<close> and the plain \<^verbatim>\<open>close_file\<close> return.
\<close>

record xmp_calls =
  xmpfiles_ok :: bool
  get_xmp :: "xmp option raising"
  set_property_ok :: bool
  can_put_xmp :: "bool raising"
  put_xmp_ok :: bool
  close_safeupdate_ok :: bool
  serialize_ok :: bool
  close_file_ok :: bool

record env =
  get :: "string \<Rightarrow> response raising"
  open_ok :: "path \<Rightarrow> bool"
  libxmp :: "path \<Rightarrow> xmp_calls"
  fromisoformat :: "string \<Rightarrow> string raising"

text \<open>
  What a download can change outside the database: the files, the requests sent so far
  (a log of the URLs passed to \<^verbatim>\<open>requests.get\<close>) and the counter \<^verbatim>\<open>self.downloads\<close>.
\<close>

record world =
  files :: fs
  requested :: "string list"
  downloads :: nat

subsection \<open>\<^verbatim>\<open>write_response\<close>\<close>

text \<open>
  \<^verbatim>\<open>open(path, "wb")\<close> raises when the file cannot be opened (or the path is a
  directory) and creates the file otherwise; the chunks are then written one by one, so
  a stream that breaks leaves the file with the chunks received so far.  The first
  component says whether the call returned.
\<close>

definition write_response :: "env \<Rightarrow> fs \<Rightarrow> response \<Rightarrow> path \<Rightarrow> bool \<times> fs" where
  "write_response env fs r path =
     (if \<not> open_ok env path \<or> fmlookup fs path = Some Dir then (False, fs)
      else (\<not> stream_breaks r, fmupd path (File (Raw (concat (chunks r)))) fs))"

subsection \<open>Metadata: the XMP block of \<^verbatim>\<open>download_media_item\<close>\<close>

text \<open>A Python string or \<^verbatim>\<open>None\<close> used as a condition.\<close>

definition truthy :: "string option \<Rightarrow> bool" where
  "truthy v = (case v of None \<Rightarrow> False | Some s \<Rightarrow> s \<noteq> [])"

text \<open>\<^verbatim>\<open>creation_time.replace("Z", "+00:00")\<close>.\<close>

definition replace_Z :: "string \<Rightarrow> string" where
  "replace_Z s = concat (map (\<lambda>c. if c = CHR ''Z'' then ''+00:00'' else [c]) s)"

text \<open>
  The two \<^verbatim>\<open>if\<close> statements that set the properties; \<^verbatim>\<open>set_property\<close> and
  \<^verbatim>\<open>fromisoformat\<close> may raise.
\<close>

definition set_properties ::
  "env \<Rightarrow> xmp_calls \<Rightarrow> xmp \<Rightarrow> string option \<Rightarrow> string option \<Rightarrow> xmp raising" where
  "set_properties env calls x description creation_time =
     (case (case description of
              Some d \<Rightarrow>
                if d \<noteq> [] then
                  (if set_property_ok calls
                   then Returns (AList.update ''exif:UserComment'' d x) else Raises)
                else Returns x
            | None \<Rightarrow> Returns x) of
        Raises \<Rightarrow> Raises
      | Returns x1 \<Rightarrow>
          (case creation_time of
             None \<Rightarrow> Returns x1
           | Some created \<Rightarrow>
               (case fromisoformat env (replace_Z created) of
                  Raises \<Rightarrow> Raises
                | Returns stamp \<Rightarrow>
                    if set_property_ok calls
                    then Returns (AList.update ''xmp:CreateDate'' stamp
                                   (AList.update ''exif:DateTimeOriginal'' stamp x1))
                    else Raises)))"

text \<open>How the block ended: with the packet in the file, in a sidecar, or nowhere.\<close>

datatype embedding = In_place | Sidecar | No_metadata

text \<open>The content of a file after \<^verbatim>\<open>put_xmp\<close> and a successful close.\<close>

definition with_packet :: "content \<Rightarrow> xmp \<Rightarrow> content" where
  "with_packet c x =
     (case c of Raw b \<Rightarrow> Updated b x | Updated b y \<Rightarrow> Updated b x | Packet y \<Rightarrow> Packet x)"

definition put_in_place :: "fs \<Rightarrow> path \<Rightarrow> xmp \<Rightarrow> fs" where
  "put_in_place fs path x =
     (case fmlookup fs path of
        Some (File c) \<Rightarrow> fmupd path (File (with_packet c x)) fs
      | _ \<Rightarrow> fs)"

text \<open>
  The inner \<^verbatim>\<open>try\<close> that sets \<^verbatim>\<open>saved\<close>: the packet is in the file when the handle is
  open, \<^verbatim>\<open>can_put_xmp\<close> answers true and \<^verbatim>\<open>put_xmp\<close> and the safe close return; any raise
  among them leaves \<^verbatim>\<open>saved\<close> false and the handle open.
\<close>

definition saved_in_place :: "xmp_calls \<Rightarrow> bool" where
  "saved_in_place calls =
     (xmpfiles_ok calls \<and> can_put_xmp calls = Returns True \<and> put_xmp_ok calls
        \<and> close_safeupdate_ok calls)"

text \<open>
  The sidecar: \<^verbatim>\<open>open(path + ".xmp", "w")\<close> creates or truncates the file, then the
  serialised packet is written; when \<^verbatim>\<open>serialize_to_str\<close> raises the file stays empty.
\<close>

definition write_sidecar :: "env \<Rightarrow> xmp_calls \<Rightarrow> fs \<Rightarrow> path \<Rightarrow> xmp \<Rightarrow> embedding \<times> fs" where
  "write_sidecar env calls fs path x =
     (let sidecar = path @ ''.xmp'' in
        if \<not> open_ok env sidecar \<or> fmlookup fs sidecar = Some Dir then (No_metadata, fs)
        else if serialize_ok calls then (Sidecar, fmupd sidecar (File (Packet x)) fs)
        else (No_metadata, fmupd sidecar (File (Raw [])) fs))"

text \<open>
  The whole block under \<^verbatim>\<open>if description or creation_time is not None\<close>.  Every raise
  before the \<^verbatim>\<open>finally\<close> clause is caught inside the block.  The \<^verbatim>\<open>finally\<close> clause
  closes the handle when it is still open, outside every inner handler: the first
  component is false when that close raises, and the raise leaves the block.  A libxmp
  call that raises is taken to leave the file as it was, and the close of the \<^verbatim>\<open>finally\<close>
  clause to write nothing.
\<close>

definition embed_metadata ::
  "env \<Rightarrow> fs \<Rightarrow> path \<Rightarrow> string option \<Rightarrow> string option \<Rightarrow> bool \<times> embedding \<times> fs" where
  "embed_metadata env fs path description creation_time =
     (let calls = libxmp env path;
          xmpfile = xmpfiles_ok calls;
          found = (if xmpfile then (case get_xmp calls of Returns x \<Rightarrow> x | Raises \<Rightarrow> None)
                   else None);
          fresh = (case found of None \<Rightarrow> [] | Some x \<Rightarrow> x)
      in case set_properties env calls fresh description creation_time of
           Raises \<Rightarrow> (\<not> xmpfile \<or> close_file_ok calls, No_metadata, fs)
         | Returns x \<Rightarrow>
             if saved_in_place calls then (True, In_place, put_in_place fs path x)
             else (let (mode, fs') = write_sidecar env calls fs path x
                   in (\<not> xmpfile \<or> close_file_ok calls, mode, fs')))"

subsection \<open>The worker \<^verbatim>\<open>download_media_item\<close>\<close>

text \<open>
  The value the worker returns.  \<open>Downloaded\<close> is the tuple \<^verbatim>\<open>(uuid, path, album_uuid)\<close>.
  \<open>AlreadyPresent\<close> is the \<^verbatim>\<open>False\<close> of the \<^verbatim>\<open>else\<close> branch (the file is there).
  \<open>Failed\<close> is the \<^verbatim>\<open>False\<close> of the \<^verbatim>\<open>except\<close> branch and the \<^verbatim>\<open>None\<close> the function
  falls through to when the status is not 200.  Only \<open>Downloaded\<close> is true as a condition.
\<close>

datatype outcome = Downloaded string path "string option" | AlreadyPresent | Failed

text \<open>The statement \<^verbatim>\<open>if description or creation_time is not None:\<close> with its block.\<close>

definition metadata_block :: "env \<Rightarrow> fs \<Rightarrow> path \<Rightarrow> entry \<Rightarrow> bool \<times> embedding \<times> fs" where
  "metadata_block env fs path entry =
     (if truthy (e_description entry) \<or> e_creation_time entry \<noteq> None
      then embed_metadata env fs path (e_description entry) (e_creation_time entry)
      else (True, No_metadata, fs))"

definition download_media_item :: "env \<Rightarrow> world \<Rightarrow> entry \<Rightarrow> outcome \<times> world" where
  "download_media_item env w entry =
     (if \<not> isfile (files w) (e_path entry) then
        (let w1 = w\<lparr>requested := requested w @ [e_url entry]\<rparr> in
           case get env (e_url entry) of
             Raises \<Rightarrow> (Failed, w1)
           | Returns r \<Rightarrow>
               if status_code r = 200 then
                 (let path = auto_filename (files w1) (e_path entry) 0;
                      (written, fs1) = write_response env (files w1) r path
                  in if \<not> written then (Failed, w1\<lparr>files := fs1\<rparr>)
                     else
                       (let (cleaned, mode, fs2) = metadata_block env fs1 path entry
                        in if \<not> cleaned then (Failed, w1\<lparr>files := fs2\<rparr>)
                           else (Downloaded (e_uuid entry) path (e_album_uuid entry),
                                 w1\<lparr>files := fs2, downloads := downloads w1 + 1\<rparr>)))
               else (Failed, w1))
      else (AlreadyPresent, w))"

subsection \<open>The pool and the draining loop: \<^verbatim>\<open>download\<close>\<close>

text \<open>
  \<^verbatim>\<open>imap_unordered\<close> hands the outcomes to the loop in completion order.  The workers
  never read the database, so a run of \<^verbatim>\<open>download\<close> is the workers' effect on the world
  followed by the loop's inserts.  A worker is taken as one step: \<open>run_pool\<close> runs the
  entries in the order given, which stands for the completion order.  This is the batch
  in which the threads run one after the other; the batch with the threads interleaved is
  the subject of the subsection on the threads of the pool.
\<close>

fun run_pool :: "env \<Rightarrow> world \<Rightarrow> entry list \<Rightarrow> outcome list \<times> world" where
  "run_pool env w [] = ([], w)"
| "run_pool env w (entry # entries) =
     (let (out, w1) = download_media_item env w entry;
          (outs, w2) = run_pool env w1 entries
      in (out # outs, w2))"

text \<open>The \<^verbatim>\<open>for\<close> loop: a row is inserted for every outcome that is true as a condition.\<close>

fun drain :: "media_row list \<Rightarrow> outcome list \<Rightarrow> media_row list" where
  "drain media [] = media"
| "drain media (Downloaded uuid path album_uuid # outs) =
     drain (insert_media_item media uuid path album_uuid) outs"
| "drain media (AlreadyPresent # outs) = drain media outs"
| "drain media (Failed # outs) = drain media outs"

text \<open>The rows that the loop inserts for a sequence of outcomes.\<close>

fun inserted_rows :: "outcome list \<Rightarrow> media_row list" where
  "inserted_rows [] = []"
| "inserted_rows (Downloaded uuid path album_uuid # outs) =
     (uuid, path, album_uuid) # inserted_rows outs"
| "inserted_rows (AlreadyPresent # outs) = inserted_rows outs"
| "inserted_rows (Failed # outs) = inserted_rows outs"

definition download :: "env \<Rightarrow> world \<times> media_row list \<Rightarrow> entry list \<Rightarrow> world \<times> media_row list" where
  "download env state entries =
     (let (outs, w) = run_pool env (fst state) entries in (w, drain (snd state) outs))"

text \<open>
  One collection, as in \<^verbatim>\<open>download_library\<close>, \<^verbatim>\<open>download_favorites\<close> and the end of
  \<^verbatim>\<open>download_single_album\<close>: the items are processed against the table, then downloaded.
  A KeyError of \<^verbatim>\<open>process_media_items\<close> is not caught there and ends the run.
\<close>

definition archive_collection ::
  "(string \<Rightarrow> string) \<Rightarrow> env \<Rightarrow> world \<times> media_row list \<Rightarrow> item list \<Rightarrow> path \<Rightarrow> string option
     \<Rightarrow> error + world \<times> media_row list" where
  "archive_collection sanitize env state media_items save_directory album_uuid =
     (case process_media_items sanitize (snd state) media_items save_directory album_uuid of
        Inl e \<Rightarrow> Inl e
      | Inr entries \<Rightarrow> Inr (download env state entries))"

subsection \<open>The threads of the pool\<close>

text \<open>
  \<^verbatim>\<open>ThreadPool(thread_count).imap_unordered\<close> runs \<^verbatim>\<open>download_media_item\<close> on up to
  \<^verbatim>\<open>thread_count\<close> entries at a time, and the threads share the file system.  To say what
  holds while they run, the worker is cut into the steps at which it reads or writes
  something shared; between two steps of one thread any other thread may take steps.
  A thread is where it stands in the function, with the local variables it has by then:

  \<^item> \<open>Checking\<close>: before \<^verbatim>\<open>os.path.isfile(path)\<close>;
  \<^item> \<open>Fetching\<close>: before \<^verbatim>\<open>requests.get\<close>;
  \<^item> \<open>Naming\<close>: inside \<^verbatim>\<open>auto_filename\<close>, before the \<^verbatim>\<open>os.path.exists\<close> of one instance number;
  \<^item> \<open>Opening\<close>: before \<^verbatim>\<open>open(path, "wb")\<close>;
  \<^item> \<open>Streaming\<close>: inside the loop of \<^verbatim>\<open>write_response\<close>, with the position of the handle
    and the chunks still to come; with no chunk left the stream either ends or breaks, and
    the file is closed;
  \<^item> \<open>Tagging\<close>: before the metadata block; \<open>Sidecar_opening\<close> and \<open>Sidecar_writing\<close>:
    before the \<^verbatim>\<open>open\<close> and before the \<^verbatim>\<open>write\<close> of the sidecar; \<open>Closing\<close>: before the
    \<^verbatim>\<open>finally\<close> clause;
  \<^item> \<open>Counting\<close> and \<open>Storing\<close>: before the read and before the write of
    \<^verbatim>\<open>self.downloads += 1\<close>, which is not atomic;
  \<^item> \<open>Finished\<close>: the function has returned.

  A handle is taken for the path it was opened on.  A write through a handle puts the
  chunk at the handle's position, whatever other handles have done to the file meanwhile;
  a position beyond the end of the file leaves a gap of zero bytes.
\<close>

datatype thread =
    Checking entry
  | Fetching entry
  | Naming entry response nat
  | Opening entry response path
  | Streaming entry response path nat "string list"
  | Tagging entry path
  | Sidecar_opening entry path xmp
  | Sidecar_writing entry path xmp
  | Closing entry path
  | Counting entry path
  | Storing entry path nat
  | Finished entry outcome

definition write_at :: "string \<Rightarrow> nat \<Rightarrow> string \<Rightarrow> string" where
  "write_at old pos chunk =
     take pos (old @ replicate (pos - length old) (CHR 0x00)) @ chunk
       @ drop (pos + length chunk) old"

fun written :: "content \<Rightarrow> nat \<Rightarrow> string \<Rightarrow> content" where
  "written (Raw b) pos chunk = Raw (write_at b pos chunk)"
| "written (Updated b x) pos chunk = Updated (write_at b pos chunk) x"
| "written (Packet x) pos chunk = Raw (write_at [] pos chunk)"

definition write_chunk :: "fs \<Rightarrow> path \<Rightarrow> nat \<Rightarrow> string \<Rightarrow> fs" where
  "write_chunk fs path pos chunk =
     (case fmlookup fs path of
        Some (File c) \<Rightarrow> fmupd path (File (written c pos chunk)) fs
      | _ \<Rightarrow> fs)"

text \<open>
  One step of a thread, on the world as it is at that moment.  The steps are those of
  \<^verbatim>\<open>download_media_item\<close>, \<^verbatim>\<open>auto_filename\<close>, \<^verbatim>\<open>write_response\<close> and the metadata block, in the
  order of the source; a raise that reaches the outer \<^verbatim>\<open>except\<close> ends the thread as
  \<open>Failed\<close>.
\<close>

fun thread_step :: "env \<Rightarrow> world \<Rightarrow> thread \<Rightarrow> world \<times> thread" where
  "thread_step env w (Checking e) =
     (w, if \<not> isfile (files w) (e_path e) then Fetching e else Finished e AlreadyPresent)"
| "thread_step env w (Fetching e) =
     (w\<lparr>requested := requested w @ [e_url e]\<rparr>,
      case get env (e_url e) of
        Raises \<Rightarrow> Finished e Failed
      | Returns r \<Rightarrow> if status_code r = 200 then Naming e r 0 else Finished e Failed)"
| "thread_step env w (Naming e r instance) =
     (w, let new_path = filename_candidate (e_path e) instance in
           if \<not> exists_path (files w) new_path then Opening e r new_path
           else Naming e r (instance + 1))"
| "thread_step env w (Opening e r path) =
     (if \<not> open_ok env path \<or> fmlookup (files w) path = Some Dir then (w, Finished e Failed)
      else (w\<lparr>files := fmupd path (File (Raw [])) (files w)\<rparr>, Streaming e r path 0 (chunks r)))"
| "thread_step env w (Streaming e r path pos (chunk # rest)) =
     (w\<lparr>files := write_chunk (files w) path pos chunk\<rparr>,
      Streaming e r path (pos + length chunk) rest)"
| "thread_step env w (Streaming e r path pos []) =
     (w, if stream_breaks r then Finished e Failed else Tagging e path)"
| "thread_step env w (Tagging e path) =
     (if truthy (e_description e) \<or> e_creation_time e \<noteq> None then
        (let calls = libxmp env path;
             xmpfile = xmpfiles_ok calls;
             found = (if xmpfile then (case get_xmp calls of Returns x \<Rightarrow> x | Raises \<Rightarrow> None)
                      else None);
             fresh = (case found of None \<Rightarrow> [] | Some x \<Rightarrow> x)
         in case set_properties env calls fresh (e_description e) (e_creation_time e) of
              Raises \<Rightarrow> (w, Closing e path)
            | Returns x \<Rightarrow>
                if saved_in_place calls
                then (w\<lparr>files := put_in_place (files w) path x\<rparr>, Counting e path)
                else (w, Sidecar_opening e path x))
      else (w, Counting e path))"
| "thread_step env w (Sidecar_opening e path x) =
     (let sidecar = path @ ''.xmp'' in
        if \<not> open_ok env sidecar \<or> fmlookup (files w) sidecar = Some Dir then (w, Closing e path)
        else (w\<lparr>files := fmupd sidecar (File (Raw [])) (files w)\<rparr>, Sidecar_writing e path x))"
| "thread_step env w (Sidecar_writing e path x) =
     (if serialize_ok (libxmp env path)
      then w\<lparr>files := fmupd (path @ ''.xmp'') (File (Packet x)) (files w)\<rparr> else w,
      Closing e path)"
| "thread_step env w (Closing e path) =
     (w, if \<not> xmpfiles_ok (libxmp env path) \<or> close_file_ok (libxmp env path)
         then Counting e path else Finished e Failed)"
| "thread_step env w (Counting e path) = (w, Storing e path (downloads w))"
| "thread_step env w (Storing e path count) =
     (w\<lparr>downloads := count + 1\<rparr>, Finished e (Downloaded (e_uuid e) path (e_album_uuid e)))"
| "thread_step env w (Finished e out) = (w, Finished e out)"

text \<open>
  The step that ends the streaming of a body: the last chunk has been written and the
  stream has not broken.  It is recorded, with the entry and the path, in a history kept
  beside the state (the program keeps no such list); the properties below refer to it.
\<close>

fun completes :: "thread \<Rightarrow> (entry \<times> path) list" where
  "completes (Streaming e r path pos []) = (if stream_breaks r then [] else [(e, path)])"
| "completes t = []"

text \<open>
  The state of a batch: the world, the media table, the entries not yet handed to a
  thread, the threads, the outcomes that wait for the \<^verbatim>\<open>for\<close> loop of \<^verbatim>\<open>download\<close>, and the
  history of completed streams.  A step of the batch hands the next entry to a free thread,
  lets one thread take one step, moves the outcome of a thread that has returned to the
  queue of the loop, or lets the loop take the next outcome and insert its row.  The
  threads never touch the table; the loop is the only writer.
\<close>

record pool =
  p_world :: world
  p_media :: "media_row list"
  p_waiting :: "entry list"
  p_threads :: "thread list"
  p_ready :: "outcome list"
  p_streamed :: "(entry \<times> path) list"

inductive pool_step :: "env \<Rightarrow> nat \<Rightarrow> pool \<Rightarrow> pool \<Rightarrow> bool" for env thread_count where
  start: "p_waiting s = e # es \<Longrightarrow> length (p_threads s) < thread_count \<Longrightarrow>
     pool_step env thread_count s (s\<lparr>p_waiting := es, p_threads := p_threads s @ [Checking e]\<rparr>)"
| run: "p_threads s = before @ t # after \<Longrightarrow> thread_step env (p_world s) t = (w, t') \<Longrightarrow>
     pool_step env thread_count s
       (s\<lparr>p_world := w, p_threads := before @ t' # after,
          p_streamed := p_streamed s @ completes t\<rparr>)"
| finish: "p_threads s = before @ Finished e out # after \<Longrightarrow>
     pool_step env thread_count s (s\<lparr>p_threads := before @ after, p_ready := p_ready s @ [out]\<rparr>)"
| take: "p_ready s = out # outs \<Longrightarrow>
     pool_step env thread_count s (s\<lparr>p_ready := outs, p_media := drain (p_media s) [out]\<rparr>)"

text \<open>
  The same steps as a function of the step chosen, and a sequence of choices: a schedule.
  \<open>Run i\<close> and \<open>Finish i\<close> name a thread by its position.
\<close>

datatype action = Start | Run nat | Finish nat | Take

fun act :: "env \<Rightarrow> nat \<Rightarrow> pool \<Rightarrow> action \<Rightarrow> pool option" where
  "act env thread_count s Start =
     (case p_waiting s of
        [] \<Rightarrow> None
      | e # es \<Rightarrow>
          if length (p_threads s) < thread_count
          then Some (s\<lparr>p_waiting := es, p_threads := p_threads s @ [Checking e]\<rparr>)
          else None)"
| "act env thread_count s (Run i) =
     (if i < length (p_threads s) then
        (let (w, t') = thread_step env (p_world s) (p_threads s ! i)
         in Some (s\<lparr>p_world := w,
                    p_threads := take i (p_threads s) @ t' # drop (Suc i) (p_threads s),
                    p_streamed := p_streamed s @ completes (p_threads s ! i)\<rparr>))
      else None)"
| "act env thread_count s (Finish i) =
     (if i < length (p_threads s) then
        (case p_threads s ! i of
           Finished e out \<Rightarrow>
             Some (s\<lparr>p_threads := take i (p_threads s) @ drop (Suc i) (p_threads s),
                     p_ready := p_ready s @ [out]\<rparr>)
         | _ \<Rightarrow> None)
      else None)"
| "act env thread_count s Take =
     (case p_ready s of
        [] \<Rightarrow> None
      | out # outs \<Rightarrow> Some (s\<lparr>p_ready := outs, p_media := drain (p_media s) [out]\<rparr>))"


text \<open>
  The states of a run of the program.  Between two batches nothing runs: \<^verbatim>\<open>download\<close>
  returns when the loop has taken the outcome of every entry.  There the program makes
  directories (\<^verbatim>\<open>safe_mkdir\<close> and \<^verbatim>\<open>auto_mkdir\<close> call \<^verbatim>\<open>os.mkdir\<close> on a path that does not exist)
  and starts the next collection: \<^verbatim>\<open>process_media_items\<close> on a listing, against the table
  as it is, then \<^verbatim>\<open>download\<close> on the entries.  The listings processed so far are kept as a
  parameter.  Nothing but the program changes the files.
\<close>

definition idle :: "pool \<Rightarrow> bool" where
  "idle s = (p_waiting s = [] \<and> p_threads s = [] \<and> p_ready s = [])"

definition at_rest :: "world \<Rightarrow> media_row list \<Rightarrow> pool" where
  "at_rest w media = \<lparr>p_world = w, p_media = media, p_waiting = [], p_threads = [],
     p_ready = [], p_streamed = []\<rparr>"

inductive reachable ::
  "(string \<Rightarrow> string) \<Rightarrow> env \<Rightarrow> nat \<Rightarrow> world \<Rightarrow> media_row list \<Rightarrow> item list list \<Rightarrow> pool \<Rightarrow> bool"
  for sanitize env thread_count w0 media0 where
  init: "reachable sanitize env thread_count w0 media0 [] (at_rest w0 media0)"
| mkdir: "reachable sanitize env thread_count w0 media0 listings s \<Longrightarrow> idle s \<Longrightarrow>
     \<not> exists_path (files (p_world s)) dir \<Longrightarrow>
     reachable sanitize env thread_count w0 media0 listings
       (s\<lparr>p_world := (p_world s)\<lparr>files := fmupd dir Dir (files (p_world s))\<rparr>\<rparr>)"
| collection: "reachable sanitize env thread_count w0 media0 listings s \<Longrightarrow> idle s \<Longrightarrow>
     process_media_items sanitize (p_media s) media_items save_directory album_uuid = Inr entries \<Longrightarrow>
     reachable sanitize env thread_count w0 media0 (listings @ [media_items])
       (s\<lparr>p_waiting := entries\<rparr>)"
| step: "reachable sanitize env thread_count w0 media0 listings s \<Longrightarrow>
     pool_step env thread_count s s' \<Longrightarrow>
     reachable sanitize env thread_count w0 media0 listings s'"

text \<open>A batch in which one thread runs and no outcome waits.\<close>

definition alone ::
  "media_row list \<Rightarrow> entry list \<Rightarrow> world \<Rightarrow> thread \<Rightarrow> (entry \<times> path) list \<Rightarrow> pool" where
  "alone media entries w t done = \<lparr>p_world = w, p_media = media, p_waiting = entries,
     p_threads = [t], p_ready = [], p_streamed = done\<rparr>"

subsection \<open>What holds of the states of a run\<close>












subsection \<open>Example data\<close>

text \<open>Concrete items, pages, an environment in which every call returns, and entries.\<close>

definition photo :: "string \<Rightarrow> item" where
  "photo n = \<lparr>item_id = Some n, item_filename = Some (n @ ''.jpg''), item_description = None,
     item_mimeType = Some ''image/jpeg'', item_baseUrl = Some (''https://lh3/'' @ n),
     item_mediaMetadata = Some \<lparr>creationTime = Some ''2020-01-01T00:00:00Z''\<rparr>\<rparr>"

definition three_pages :: "string option \<Rightarrow> page" where
  "three_pages token =
     (if token = None then \<lparr>mediaItems = Some (replicate 100 (photo ''a'')), nextPageToken = Some ''t1''\<rparr>
      else if token = Some ''t1'' then \<lparr>mediaItems = Some (replicate 100 (photo ''b'')), nextPageToken = Some ''t2''\<rparr>
      else \<lparr>mediaItems = Some (replicate 37 (photo ''c'')), nextPageToken = None\<rparr>)"

definition clip :: "string \<Rightarrow> item" where
  "clip n = \<lparr>item_id = Some n, item_filename = Some (n @ ''.mp4''), item_description = Some ''beach'',
     item_mimeType = Some ''video/mp4'', item_baseUrl = Some (''https://lh3/'' @ n),
     item_mediaMetadata = Some \<lparr>creationTime = Some ''2021-06-01T10:00:00Z''\<rparr>\<rparr>"

definition memo :: "string \<Rightarrow> item" where
  "memo n = \<lparr>item_id = Some n, item_filename = Some (n @ ''.txt''), item_description = None,
     item_mimeType = Some ''text/plain'', item_baseUrl = None, item_mediaMetadata = None\<rparr>"

definition calm :: env where
  "calm = \<lparr>get = (\<lambda>u. Returns \<lparr>status_code = 200, chunks = [''ab'', ''cd''], stream_breaks = False\<rparr>),
     open_ok = (\<lambda>p. True),
     libxmp = (\<lambda>p. \<lparr>xmpfiles_ok = True, get_xmp = Returns None, set_property_ok = True,
        can_put_xmp = Returns True, put_xmp_ok = True, close_safeupdate_ok = True,
        serialize_ok = True, close_file_ok = True\<rparr>),
     fromisoformat = (\<lambda>s. Returns s)\<rparr>"

definition nothing :: world where
  "nothing = \<lparr>files = fmempty, requested = [], downloads = 0\<rparr>"

definition task :: "string \<Rightarrow> entry" where
  "task n = \<lparr>e_uuid = n, e_album_uuid = None, e_url = ''https://lh3/'' @ n @ ''=d'',
     e_path = ''Library/'' @ n @ ''.jpg'', e_description = None, e_creation_time = Some ''2020-01-01T00:00:00Z''\<rparr>"

definition archived :: world where
  "archived = \<lparr>files = fmupd ''Library/a.jpg'' (File (Raw ''abcd'')) fmempty, requested = [],
     downloads = 0\<rparr>"


definition stubborn :: env where
  "stubborn = calm\<lparr>libxmp := (\<lambda>p. (libxmp calm p)\<lparr>set_property_ok := False\<rparr>)\<rparr>"

definition unclosable :: env where
  "unclosable = calm\<lparr>libxmp := (\<lambda>p. (libxmp calm p)\<lparr>close_safeupdate_ok := False,
     close_file_ok := False\<rparr>)\<rparr>"

definition offline_a :: env where
  "offline_a = calm\<lparr>get := (\<lambda>u. if u = ''https://lh3/a=d'' then Raises else get calm u)\<rparr>"

definition broken_a :: env where
  "broken_a = calm\<lparr>get := (\<lambda>u. if u = ''https://lh3/a=d''
      then Returns \<lparr>status_code = 200, chunks = [''ab''], stream_breaks = True\<rparr>
      else get calm u)\<rparr>"

definition twin :: entry where
  "twin = (task ''b'')\<lparr>e_path := ''Library/a.jpg''\<rparr>"

definition stored :: "media_row list" where
  "stored = [(''v'', ''Albums/Sea/old.mp4'', Some ''sea'')]"

text \<open>
  An \<^verbatim>\<open>os.mkdir\<close> as a POSIX file system has it: the call fails when the name of the new
  directory has more than 255 characters (ENAMETOOLONG) or when its parent directory is
  missing (ENOENT), and succeeds otherwise.
\<close>

definition posix_mkdir_raises :: "fs \<Rightarrow> path \<Rightarrow> bool" where
  "posix_mkdir_raises fs p =
     (let i = rfind p CHR ''/'' in
        255 < length (slice_from p (i + 1)) \<or> (0 < i \<and> fmlookup fs (slice_to p i) \<noteq> Some Dir))"

definition long_title :: string where
  "long_title = replicate 255 CHR ''a''"

section \<open>Properties of the naming helpers\<close>

lemma first_free:
  assumes inj: "\<And>m n. cand m = cand n \<Longrightarrow> m = n"
  shows "\<exists>n::nat. \<not> exists_path fs (cand n) \<and> (\<forall>m<n. exists_path fs (cand m))"
proof -
  have "\<exists>n. \<not> exists_path fs (cand n)"
  proof (rule ccontr)
    assume "\<not> (\<exists>n. \<not> exists_path fs (cand n))"
    then have "{n. cand n \<in> fmdom' fs} = UNIV"
      by (auto simp: exists_path_def fmlookup_dom'_iff)
    then show False using taken_finite [of cand fs, OF inj] by simp
  qed
  then obtain k where k: "\<not> exists_path fs (cand k)" ..
  define n where "n = (LEAST j. \<not> exists_path fs (cand j))"
  have "\<not> exists_path fs (cand n)" unfolding n_def using k by (rule LeastI)
  moreover have "\<forall>m<n. exists_path fs (cand m)"
    unfolding n_def using not_less_Least by blast
  ultimately show ?thesis by blast
qed

lemma auto_filename_reaches:
  assumes "\<not> exists_path fs (filename_candidate path n)"
    and "\<forall>m. i \<le> m \<and> m < n \<longrightarrow> exists_path fs (filename_candidate path m)"
    and "i \<le> n"
  shows "auto_filename fs path i = filename_candidate path n"
  using assms
proof (induction "n - i" arbitrary: i)
  case 0
  then have "i = n" by simp
  with 0 show ?case by (subst auto_filename.simps) (simp add: Let_def)
next
  case (Suc d)
  then have lt: "i < n" by simp
  with Suc.prems have ex: "exists_path fs (filename_candidate path i)" by simp
  have "auto_filename fs path (i + 1) = filename_candidate path n"
    using Suc.hyps(1) [of "i + 1"] Suc.hyps(2) Suc.prems lt by simp
  with ex show ?case by (subst auto_filename.simps) (simp add: Let_def)
qed

lemma rfind_absent: "c \<notin> set s \<Longrightarrow> rfind s c = -1"
  by (induction s) (auto simp: Let_def)

lemma rfind_nonneg: "rfind s c \<noteq> -1 \<Longrightarrow> 0 \<le> rfind s c"
  by (induction s) (auto simp: Let_def split: if_splits)

lemma rfind_last: "c \<notin> set post \<Longrightarrow> rfind (pre @ c # post) c = int (length pre)"
proof (induction pre)
  case Nil
  then show ?case by (simp add: rfind_absent Let_def)
next
  case (Cons a pre)
  then show ?case by (simp add: Let_def)
qed

lemma slice_no_dot:
  "slice_to s (-1) = take (length s - 1) s" "slice_from s (-1) = drop (length s - 1) s"
  by (simp_all add: slice_to_def slice_from_def slice_bound_def nat_diff_distrib' max_def)

lemma slice_at_dot:
  "slice_to (pre @ c # post) (int (length pre)) = pre"
  "slice_from (pre @ c # post) (int (length pre)) = c # post"
  by (simp_all add: slice_to_def slice_from_def slice_bound_def)

lemma auto_filename_result:
  "\<exists>n. \<not> exists_path fs (filename_candidate path n)
      \<and> (\<forall>m<n. exists_path fs (filename_candidate path m))
      \<and> auto_filename fs path 0 = filename_candidate path n"
proof -
  obtain n where n: "\<not> exists_path fs (filename_candidate path n)"
      "\<forall>m<n. exists_path fs (filename_candidate path m)"
    using first_free [of "filename_candidate path" fs] filename_candidate_inj by blast
  then have "auto_filename fs path 0 = filename_candidate path n"
    by (intro auto_filename_reaches) simp_all
  with n show ?thesis by blast
qed

lemma filename_candidate_no_dot:
  assumes "CHR ''.'' \<notin> set path" and "path \<noteq> []" and "0 < n"
  shows "filename_candidate path n = butlast path @ '' ('' @ str_nat n @ '')'' @ [last path]"
proof -
  have "take (length path - 1) path = butlast path" by (simp add: butlast_conv_take)
  moreover have "drop (length path - 1) path = [last path]"
    using assms(2) by (metis append_butlast_last_id append_eq_conv_conj length_butlast)
  ultimately show ?thesis
    using assms by (simp add: filename_candidate_def rfind_absent slice_no_dot)
qed

lemma filename_candidate_dot:
  assumes "path = pre @ CHR ''.'' # post" and "CHR ''.'' \<notin> set post" and "0 < n"
  shows "filename_candidate path n = pre @ '' ('' @ str_nat n @ '')'' @ CHR ''.'' # post"
  using assms by (simp add: filename_candidate_def rfind_last slice_at_dot)

text \<open>
  Claim C10.  For a path that already exists, \<^verbatim>\<open>auto_filename\<close> returns the first unused
  candidate of a positive instance number \<open>n\<close>.  When the path contains no dot, \<^verbatim>\<open>rfind\<close>
  answers -1 and the suffix \<open>'' (n)''\<close> lands before the final character of the path, not
  at its end; when the path contains a dot, the suffix lands before the last dot.
\<close>

theorem auto_filename_suffix_position:
  assumes "exists_path fs path"
  shows "\<exists>n>0. auto_filename fs path 0 = filename_candidate path n
      \<and> \<not> exists_path fs (filename_candidate path n)
      \<and> (\<forall>m<n. exists_path fs (filename_candidate path m))
      \<and> (CHR ''.'' \<notin> set path \<and> path \<noteq> [] \<longrightarrow>
           filename_candidate path n = butlast path @ '' ('' @ str_nat n @ '')'' @ [last path])
      \<and> (\<forall>pre post. path = pre @ CHR ''.'' # post \<and> CHR ''.'' \<notin> set post \<longrightarrow>
           filename_candidate path n = pre @ '' ('' @ str_nat n @ '')'' @ CHR ''.'' # post)"
proof -
  obtain n where n: "\<not> exists_path fs (filename_candidate path n)"
      "\<forall>m<n. exists_path fs (filename_candidate path m)"
      "auto_filename fs path 0 = filename_candidate path n"
    using auto_filename_result by blast
  have "0 < n"
  proof (rule ccontr)
    assume "\<not> 0 < n"
    then have "filename_candidate path n = path" by (simp add: filename_candidate_def)
    with n(1) assms show False by simp
  qed
  with n show ?thesis
    using filename_candidate_no_dot [of path n] filename_candidate_dot [of path _ _ n]
    by (intro exI [of _ n]) simp
qed

theorem auto_filename_suffix_position_witness:
  "exists_path (fmupd ''Library/IMG'' (File (Raw ''x'')) fmempty) ''Library/IMG''
   \<and> auto_filename (fmupd ''Library/IMG'' (File (Raw ''x'')) fmempty) ''Library/IMG'' 0
       = ''Library/IM (1)G''
   \<and> exists_path (fmupd ''Library/a.jpg'' (File (Raw ''x'')) fmempty) ''Library/a.jpg''
   \<and> auto_filename (fmupd ''Library/a.jpg'' (File (Raw ''x'')) fmempty) ''Library/a.jpg'' 0
       = ''Library/a (1).jpg''"
proof -
  let ?f1 = "fmupd ''Library/IMG'' (File (Raw ''x'')) fmempty"
  let ?f2 = "fmupd ''Library/a.jpg'' (File (Raw ''x'')) fmempty"
  have e1: "exists_path ?f1 ''Library/IMG''" by (simp add: exists_path_def)
  have e2: "exists_path ?f2 ''Library/a.jpg''" by (simp add: exists_path_def)
  from auto_filename_suffix_position [OF e1]
  obtain n where n: "0 < n" "auto_filename ?f1 ''Library/IMG'' 0 = filename_candidate ''Library/IMG'' n"
    "\<forall>m<n. exists_path ?f1 (filename_candidate ''Library/IMG'' m)" by blast
  have "\<not> exists_path ?f1 (filename_candidate ''Library/IMG'' 1)"
    by (simp add: exists_path_def filename_candidate_def str_nat.simps digit_char_def slice_to_def slice_from_def slice_bound_def Let_def)
  with n(3) have "\<not> 1 < n" by blast
  with n(1) have "n = 1" by simp
  with n(2) have a1: "auto_filename ?f1 ''Library/IMG'' 0 = ''Library/IM (1)G''"
    by (simp add: filename_candidate_def str_nat.simps digit_char_def slice_to_def slice_from_def slice_bound_def Let_def)
  from auto_filename_suffix_position [OF e2]
  obtain k where k: "0 < k" "auto_filename ?f2 ''Library/a.jpg'' 0 = filename_candidate ''Library/a.jpg'' k"
    "\<forall>m<k. exists_path ?f2 (filename_candidate ''Library/a.jpg'' m)" by blast
  have "\<not> exists_path ?f2 (filename_candidate ''Library/a.jpg'' 1)"
    by (simp add: exists_path_def filename_candidate_def str_nat.simps digit_char_def slice_to_def slice_from_def slice_bound_def Let_def)
  with k(3) have "\<not> 1 < k" by blast
  with k(1) have "k = 1" by simp
  with k(2) have a2: "auto_filename ?f2 ''Library/a.jpg'' 0 = ''Library/a (1).jpg''"
    by (simp add: filename_candidate_def str_nat.simps digit_char_def slice_to_def slice_from_def slice_bound_def Let_def)
  from e1 a1 e2 a2 show ?thesis by blast
qed

lemma auto_mkdir_reaches:
  assumes "\<not> exists_path fs (mkdir_candidate path n)"
    and "\<forall>m. i \<le> m \<and> m < n \<longrightarrow> exists_path fs (mkdir_candidate path m)"
    and "i \<le> n"
  shows "auto_mkdir mkdir_raises abspath fs path i
       = (if mkdir_raises fs (mkdir_candidate path n) then Inl OSError
          else Inr (abspath (mkdir_candidate path n), fmupd (mkdir_candidate path n) Dir fs))"
  using assms
proof (induction "n - i" arbitrary: i)
  case 0
  then have "i = n" by simp
  with 0 show ?case by (subst auto_mkdir.simps) (simp add: Let_def)
next
  case (Suc d)
  then have lt: "i < n" by simp
  with Suc.prems have ex: "exists_path fs (mkdir_candidate path i)" by simp
  have "auto_mkdir mkdir_raises abspath fs path (i + 1)
       = (if mkdir_raises fs (mkdir_candidate path n) then Inl OSError
          else Inr (abspath (mkdir_candidate path n), fmupd (mkdir_candidate path n) Dir fs))"
    using Suc.hyps(1) [of "i + 1"] Suc.hyps(2) Suc.prems lt by simp
  with ex show ?case by (subst auto_mkdir.simps) (simp add: Let_def)
qed

lemma auto_mkdir_result:
  "\<exists>n. \<not> exists_path fs (mkdir_candidate path n)
      \<and> (\<forall>m<n. exists_path fs (mkdir_candidate path m))
      \<and> auto_mkdir mkdir_raises abspath fs path 0
          = (if mkdir_raises fs (mkdir_candidate path n) then Inl OSError
             else Inr (abspath (mkdir_candidate path n), fmupd (mkdir_candidate path n) Dir fs))"
proof -
  obtain n where n: "\<not> exists_path fs (mkdir_candidate path n)"
      "\<forall>m<n. exists_path fs (mkdir_candidate path m)"
    using first_free [of "mkdir_candidate path" fs] mkdir_candidate_inj by blast
  then have "auto_mkdir mkdir_raises abspath fs path 0
          = (if mkdir_raises fs (mkdir_candidate path n) then Inl OSError
             else Inr (abspath (mkdir_candidate path n), fmupd (mkdir_candidate path n) Dir fs))"
    by (intro auto_mkdir_reaches) simp_all
  with n show ?thesis by blast
qed

lemma exists_after_mkdir:
  "exists_path (fmupd q Dir fs) p \<longleftrightarrow> p = q \<or> exists_path fs p"
  by (auto simp: exists_path_def)

lemma auto_mkdir_made:
  assumes "auto_mkdir mkdir_raises abspath fs path 0 = Inr (d, fs')"
  shows "\<exists>n. \<not> exists_path fs (mkdir_candidate path n)
      \<and> (\<forall>m<n. exists_path fs (mkdir_candidate path m))
      \<and> \<not> mkdir_raises fs (mkdir_candidate path n)
      \<and> d = abspath (mkdir_candidate path n) \<and> fs' = fmupd (mkdir_candidate path n) Dir fs"
proof -
  from auto_mkdir_result [of fs path mkdir_raises abspath]
  obtain n where n: "\<not> exists_path fs (mkdir_candidate path n)"
      "\<forall>m<n. exists_path fs (mkdir_candidate path m)"
      "auto_mkdir mkdir_raises abspath fs path 0
          = (if mkdir_raises fs (mkdir_candidate path n) then Inl OSError
             else Inr (abspath (mkdir_candidate path n), fmupd (mkdir_candidate path n) Dir fs))"
    by blast
  from n(3) assms have "\<not> mkdir_raises fs (mkdir_candidate path n)"
    by (auto split: if_splits)
  with n assms show ?thesis by (intro exI [of _ n]) simp
qed

lemma rfind_albums:
  assumes "c \<noteq> CHR ''/''" and "CHR ''/'' \<notin> set post"
  shows "rfind (''Albums/'' @ replicate n c @ post) CHR ''/'' = 6"
  using rfind_last [of "CHR ''/''" "replicate n c @ post" "''Albums''"] assms by auto

text \<open>
  Claim C6, as the code has it.  \<^verbatim>\<open>auto_mkdir\<close> (the spec's ensureDirectory) tries the base
  path, then the base path followed by \<open>'' (1)''\<close>, \<open>'' (2)''\<close>, ...; it calls \<^verbatim>\<open>os.mkdir\<close> on the
  first of these that does not exist, and on no other.  The base path itself is taken
  exactly when it is absent.  When \<^verbatim>\<open>os.mkdir\<close> succeeds the directory is created and its
  absolute path returned; when it raises, the OSError leaves \<^verbatim>\<open>auto_mkdir\<close> and nothing is
  created.  Two successive calls for the same base path that both return create two
  different directories; when neither the base path nor its \<open>'' (1)''\<close> variant existed before,
  the first returns the base path and the second the base path suffixed \<open>'' (1)''\<close>.
\<close>

theorem auto_mkdir_first_unused:
  "(\<exists>n. \<not> exists_path fs (mkdir_candidate path n)
      \<and> (\<forall>m<n. exists_path fs (mkdir_candidate path m))
      \<and> (n = 0 \<longleftrightarrow> \<not> exists_path fs path)
      \<and> mkdir_candidate path n = (if n = 0 then path else path @ '' ('' @ str_nat n @ '')'')
      \<and> auto_mkdir mkdir_raises abspath fs path 0
          = (if mkdir_raises fs (mkdir_candidate path n) then Inl OSError
             else Inr (abspath (mkdir_candidate path n), fmupd (mkdir_candidate path n) Dir fs)))
   \<and> (\<forall>d1 fs1 d2 fs2.
        auto_mkdir mkdir_raises abspath fs path 0 = Inr (d1, fs1)
        \<and> auto_mkdir mkdir_raises abspath fs1 path 0 = Inr (d2, fs2) \<longrightarrow>
        (\<exists>n1 n2. n1 < n2
           \<and> d1 = abspath (mkdir_candidate path n1) \<and> d2 = abspath (mkdir_candidate path n2)
           \<and> mkdir_candidate path n1 \<noteq> mkdir_candidate path n2
           \<and> fmlookup fs2 (mkdir_candidate path n1) = Some Dir
           \<and> fmlookup fs2 (mkdir_candidate path n2) = Some Dir
           \<and> (\<not> exists_path fs path \<and> \<not> exists_path fs (path @ '' (1)'') \<longrightarrow>
                d1 = abspath path \<and> d2 = abspath (path @ '' (1)''))))"
proof (intro conjI allI impI)
  obtain n where n: "\<not> exists_path fs (mkdir_candidate path n)"
      "\<forall>m<n. exists_path fs (mkdir_candidate path m)"
      "auto_mkdir mkdir_raises abspath fs path 0
          = (if mkdir_raises fs (mkdir_candidate path n) then Inl OSError
             else Inr (abspath (mkdir_candidate path n), fmupd (mkdir_candidate path n) Dir fs))"
    using auto_mkdir_result by blast
  have zero: "mkdir_candidate path 0 = path" by (simp add: mkdir_candidate_def)
  have "n = 0 \<longleftrightarrow> \<not> exists_path fs path"
  proof
    assume "n = 0" with n(1) zero show "\<not> exists_path fs path" by simp
  next
    assume "\<not> exists_path fs path"
    show "n = 0"
    proof (rule ccontr)
      assume "n \<noteq> 0"
      then have "exists_path fs (mkdir_candidate path 0)" using n(2) by simp
      with zero \<open>\<not> exists_path fs path\<close> show False by simp
    qed
  qed
  moreover have "mkdir_candidate path n = (if n = 0 then path else path @ '' ('' @ str_nat n @ '')'')"
    by (simp add: mkdir_candidate_def)
  ultimately show "\<exists>n. \<not> exists_path fs (mkdir_candidate path n)
      \<and> (\<forall>m<n. exists_path fs (mkdir_candidate path m))
      \<and> (n = 0 \<longleftrightarrow> \<not> exists_path fs path)
      \<and> mkdir_candidate path n = (if n = 0 then path else path @ '' ('' @ str_nat n @ '')'')
      \<and> auto_mkdir mkdir_raises abspath fs path 0
          = (if mkdir_raises fs (mkdir_candidate path n) then Inl OSError
             else Inr (abspath (mkdir_candidate path n), fmupd (mkdir_candidate path n) Dir fs))"
    using n by (intro exI [of _ n] conjI)
next
  fix d1 fs1 d2 fs2
  assume runs: "auto_mkdir mkdir_raises abspath fs path 0 = Inr (d1, fs1)
      \<and> auto_mkdir mkdir_raises abspath fs1 path 0 = Inr (d2, fs2)"
  from runs auto_mkdir_made [of mkdir_raises abspath fs path d1 fs1]
  obtain n1 where n1: "\<not> exists_path fs (mkdir_candidate path n1)"
      "\<forall>m<n1. exists_path fs (mkdir_candidate path m)"
    and d1: "d1 = abspath (mkdir_candidate path n1)"
    and fs1: "fs1 = fmupd (mkdir_candidate path n1) Dir fs" by blast
  from runs auto_mkdir_made [of mkdir_raises abspath fs1 path d2 fs2]
  obtain n2 where n2: "\<not> exists_path fs1 (mkdir_candidate path n2)"
      "\<forall>m<n2. exists_path fs1 (mkdir_candidate path m)"
    and d2: "d2 = abspath (mkdir_candidate path n2)"
    and fs2: "fs2 = fmupd (mkdir_candidate path n2) Dir fs1" by blast
  have taken: "\<forall>m\<le>n1. exists_path fs1 (mkdir_candidate path m)"
    using n1(2) by (auto simp: fs1 exists_after_mkdir le_less)
  have lt: "n1 < n2"
  proof (rule ccontr)
    assume "\<not> n1 < n2"
    then have "n2 \<le> n1" by simp
    with taken n2(1) show False by blast
  qed
  have ne: "mkdir_candidate path n1 \<noteq> mkdir_candidate path n2"
    using lt mkdir_candidate_inj [of path n1 n2] by auto
  have dirs: "fmlookup fs2 (mkdir_candidate path n1) = Some Dir"
      "fmlookup fs2 (mkdir_candidate path n2) = Some Dir"
    using ne by (simp_all add: fs1 fs2)
  have fresh: "d1 = abspath path \<and> d2 = abspath (path @ '' (1)'')"
    if free: "\<not> exists_path fs path \<and> \<not> exists_path fs (path @ '' (1)'')"
  proof -
    have zero: "mkdir_candidate path 0 = path" by (simp add: mkdir_candidate_def)
    have one: "mkdir_candidate path (Suc 0) = path @ '' (1)''"
      by (simp add: mkdir_candidate_def str_nat.simps digit_char_def)
    have "n1 = 0"
    proof (rule ccontr)
      assume "n1 \<noteq> 0"
      then have "exists_path fs (mkdir_candidate path 0)" using n1(2) by simp
      with zero free show False by simp
    qed
    have "n2 = 1"
    proof (rule ccontr)
      assume "n2 \<noteq> 1"
      with lt \<open>n1 = 0\<close> have "1 < n2" by simp
      then have "exists_path fs1 (mkdir_candidate path 1)" using n2(2) by simp
      then show False using free by (simp add: one zero fs1 \<open>n1 = 0\<close> exists_after_mkdir)
    qed
    show ?thesis by (simp add: d1 d2 \<open>n1 = 0\<close> \<open>n2 = 1\<close> zero one)
  qed
  show "\<exists>n1 n2. n1 < n2
           \<and> d1 = abspath (mkdir_candidate path n1) \<and> d2 = abspath (mkdir_candidate path n2)
           \<and> mkdir_candidate path n1 \<noteq> mkdir_candidate path n2
           \<and> fmlookup fs2 (mkdir_candidate path n1) = Some Dir
           \<and> fmlookup fs2 (mkdir_candidate path n2) = Some Dir
           \<and> (\<not> exists_path fs path \<and> \<not> exists_path fs (path @ '' (1)'') \<longrightarrow>
                d1 = abspath path \<and> d2 = abspath (path @ '' (1)''))"
    using lt d1 d2 ne dirs fresh by blast
qed

theorem auto_mkdir_first_unused_witness:
  "auto_mkdir posix_mkdir_raises (\<lambda>p. ''/root/'' @ p) (fmupd ''Albums'' Dir fmempty) ''Albums/Trip'' 0
     = Inr (''/root/Albums/Trip'', fmupd ''Albums/Trip'' Dir (fmupd ''Albums'' Dir fmempty))
   \<and> auto_mkdir posix_mkdir_raises (\<lambda>p. ''/root/'' @ p)
        (fmupd ''Albums/Trip'' Dir (fmupd ''Albums'' Dir fmempty)) ''Albums/Trip'' 0
     = Inr (''/root/Albums/Trip (1)'',
        fmupd ''Albums/Trip (1)'' Dir (fmupd ''Albums/Trip'' Dir (fmupd ''Albums'' Dir fmempty)))
   \<and> (\<exists>n1 n2. n1 < n2 \<and> mkdir_candidate ''Albums/Trip'' n1 \<noteq> mkdir_candidate ''Albums/Trip'' n2
        \<and> ''/root/Albums/Trip'' = ''/root/'' @ mkdir_candidate ''Albums/Trip'' n1
        \<and> ''/root/Albums/Trip (1)'' = ''/root/'' @ mkdir_candidate ''Albums/Trip'' n2)
   \<and> auto_mkdir posix_mkdir_raises (\<lambda>p. ''/root/'' @ p) fmempty ''Albums/Trip'' 0 = Inl OSError"
proof -
  let ?abs = "\<lambda>p. ''/root/'' @ p"
  let ?fs = "fmupd ''Albums'' Dir fmempty"
  let ?fs1 = "fmupd ''Albums/Trip'' Dir ?fs"
  let ?fs2 = "fmupd ''Albums/Trip (1)'' Dir ?fs1"
  have r1: "auto_mkdir posix_mkdir_raises ?abs ?fs ''Albums/Trip'' 0 = Inr (''/root/Albums/Trip'', ?fs1)"
    by (simp add: auto_mkdir.simps mkdir_candidate_def exists_path_def Let_def
        posix_mkdir_raises_def slice_from_def slice_to_def slice_bound_def)
  have r2: "auto_mkdir posix_mkdir_raises ?abs ?fs1 ''Albums/Trip'' 0 = Inr (''/root/Albums/Trip (1)'', ?fs2)"
    by (simp add: auto_mkdir.simps mkdir_candidate_def exists_path_def str_nat.simps digit_char_def
        Let_def posix_mkdir_raises_def slice_from_def slice_to_def slice_bound_def)
  from auto_mkdir_first_unused [of ?fs "''Albums/Trip''" posix_mkdir_raises ?abs, THEN conjunct2,
      THEN spec, THEN spec, THEN spec, THEN spec, THEN mp, OF conjI, OF r1 r2]
  obtain n1 n2 where "n1 < n2"
      "''/root/Albums/Trip'' = ?abs (mkdir_candidate ''Albums/Trip'' n1)"
      "''/root/Albums/Trip (1)'' = ?abs (mkdir_candidate ''Albums/Trip'' n2)"
      "mkdir_candidate ''Albums/Trip'' n1 \<noteq> mkdir_candidate ''Albums/Trip'' n2"
    by (elim exE conjE) (rule that)
  then have two: "\<exists>n1 n2. n1 < n2 \<and> mkdir_candidate ''Albums/Trip'' n1 \<noteq> mkdir_candidate ''Albums/Trip'' n2
        \<and> ''/root/Albums/Trip'' = ''/root/'' @ mkdir_candidate ''Albums/Trip'' n1
        \<and> ''/root/Albums/Trip (1)'' = ''/root/'' @ mkdir_candidate ''Albums/Trip'' n2"
    by (intro exI [of _ n1] exI [of _ n2] conjI)
  from auto_mkdir_first_unused [of fmempty "''Albums/Trip''" posix_mkdir_raises ?abs, THEN conjunct1]
  obtain n where n: "n = 0 \<longleftrightarrow> \<not> exists_path fmempty ''Albums/Trip''"
      "auto_mkdir posix_mkdir_raises ?abs fmempty ''Albums/Trip'' 0
          = (if posix_mkdir_raises fmempty (mkdir_candidate ''Albums/Trip'' n) then Inl OSError
             else Inr (?abs (mkdir_candidate ''Albums/Trip'' n),
                       fmupd (mkdir_candidate ''Albums/Trip'' n) Dir fmempty))"
    by (elim exE conjE) (rule that)
  from n(1) have "n = 0" by (simp add: exists_path_def)
  with n(2) have r3: "auto_mkdir posix_mkdir_raises ?abs fmempty ''Albums/Trip'' 0 = Inl OSError"
    by (simp add: mkdir_candidate_def posix_mkdir_raises_def slice_from_def slice_to_def
        slice_bound_def)
  show ?thesis by (intro conjI) (fact r1, fact r2, fact two, fact r3)
qed

text \<open>
  Claim C6 as stated fails: it promises a second directory for every second title.  With
  a title of 255 characters, the longest name a POSIX file system takes, the first call
  makes the directory, and the second call finds the path taken, asks \<^verbatim>\<open>os.mkdir\<close> for the
  title suffixed \<open>'' (1)''\<close>, a name of 259 characters, and ends in the OSError.
\<close>

theorem auto_mkdir_name_too_long:
  "auto_mkdir posix_mkdir_raises (\<lambda>p. ''/root/'' @ p) (fmupd ''Albums'' Dir fmempty)
       (''Albums/'' @ long_title) 0
     = Inr (''/root/Albums/'' @ long_title,
            fmupd (''Albums/'' @ long_title) Dir (fmupd ''Albums'' Dir fmempty))
   \<and> auto_mkdir posix_mkdir_raises (\<lambda>p. ''/root/'' @ p)
       (fmupd (''Albums/'' @ long_title) Dir (fmupd ''Albums'' Dir fmempty))
       (''Albums/'' @ long_title) 0
     = Inl OSError"
proof -
  let ?fs = "fmupd ''Albums'' Dir fmempty"
  let ?p = "''Albums/'' @ long_title"
  let ?fs1 = "fmupd ?p Dir ?fs"
  have r0: "rfind (''Albums/'' @ long_title) CHR ''/'' = 6"
    using rfind_albums [of "CHR ''a''" "[]" 255] by (simp add: long_title_def)
  have r1: "rfind (''Albums/'' @ long_title @ '' (1)'') CHR ''/'' = 6"
    using rfind_albums [of "CHR ''a''" "'' (1)''" 255] by (simp add: long_title_def)
  have len: "length long_title = 255" by (simp add: long_title_def)
  have c1: "mkdir_candidate ?p (Suc 0) = ''Albums/'' @ long_title @ '' (1)''"
    by (simp add: mkdir_candidate_def str_nat.simps digit_char_def)
  have ok0: "\<not> posix_mkdir_raises ?fs ?p"
    using r0 len by (simp add: posix_mkdir_raises_def slice_from_def slice_to_def slice_bound_def)
  have bad1: "posix_mkdir_raises ?fs1 (''Albums/'' @ long_title @ '' (1)'')"
    using r1 len by (simp add: posix_mkdir_raises_def slice_from_def slice_to_def slice_bound_def)
  have ne: "long_title \<noteq> []" "long_title @ '' (1)'' \<noteq> long_title" by (simp_all add: long_title_def)
  have free0: "\<not> exists_path ?fs (mkdir_candidate ?p 0)"
    using ne by (simp add: mkdir_candidate_def exists_path_def)
  have taken0: "exists_path ?fs1 (mkdir_candidate ?p 0)"
    by (simp add: mkdir_candidate_def exists_path_def)
  have free1: "\<not> exists_path ?fs1 (mkdir_candidate ?p (Suc 0))"
    using ne by (simp add: mkdir_candidate_def str_nat.simps digit_char_def exists_path_def)
  have first: "auto_mkdir posix_mkdir_raises (\<lambda>p. ''/root/'' @ p) ?fs ?p 0
      = Inr (''/root/Albums/'' @ long_title, ?fs1)"
    using auto_mkdir_reaches [of ?fs ?p 0 0 posix_mkdir_raises "\<lambda>p. ''/root/'' @ p", OF free0] ok0
    by (simp add: mkdir_candidate_def)
  have second: "auto_mkdir posix_mkdir_raises (\<lambda>p. ''/root/'' @ p) ?fs1 ?p 0 = Inl OSError"
    using auto_mkdir_reaches [of ?fs1 ?p "Suc 0" 0 posix_mkdir_raises "\<lambda>p. ''/root/'' @ p", OF free1]
      taken0 bad1
    by (simp add: mkdir_candidate_def str_nat.simps digit_char_def)
  from first second show ?thesis by (intro conjI)
qed

section \<open>Properties of \<^verbatim>\<open>list_media_items\<close>\<close>

lemma list_loop_served:
  "served service request rest \<Longrightarrow>
     list_loop service request acc = Some (acc @ concat (map page_items (request # rest)))"
proof (induction rest arbitrary: request acc)
  case Nil
  then show ?case
    by (subst list_loop.simps) (simp add: page_items_def split: option.splits)
next
  case (Cons q qs)
  then obtain t where t: "nextPageToken request = Some t" "service (Some t) = q"
      "served service q qs"
    by (auto split: option.splits)
  have "list_loop service q (acc @ page_items request)
      = Some ((acc @ page_items request) @ concat (map page_items (q # qs)))"
    using Cons.IH [OF t(3)] .
  with t show ?case
    by (subst list_loop.simps) (simp add: page_items_def split: option.splits)
qed

text \<open>
  Claim C5.  When the responses of the endpoint form a chain (each response but the last
  carries the token that the next one is served for, the last carries none),
  \<^verbatim>\<open>list_media_items\<close> returns and its result is the items of the responses, concatenated
  in the order of the pages: three pages of 100, 100 and 37 items give 237 items.  When
  the first response is the empty object the result is empty and no further call is made.
\<close>

theorem list_media_items_concatenates:
  "(served service (service None) rest \<longrightarrow>
      list_media_items service = Some (concat (map page_items (service None # rest))))
   \<and> (empty_response (service None) \<longrightarrow> list_media_items service = Some [])"
proof (intro conjI impI)
  assume s: "served service (service None) rest"
  show "list_media_items service = Some (concat (map page_items (service None # rest)))"
  proof (cases "empty_response (service None)")
    case True
    then have "rest = []" using s by (cases rest) (simp_all add: empty_response_def)
    with True show ?thesis
      by (simp add: list_media_items_def page_items_def empty_response_def)
  next
    case False
    then show ?thesis
      using list_loop_served [OF s, of "[]"] by (simp add: list_media_items_def)
  qed
next
  assume "empty_response (service None)"
  then show "list_media_items service = Some []" by (simp add: list_media_items_def)
qed

theorem list_media_items_concatenates_witness:
  "served three_pages (three_pages None) [three_pages (Some ''t1''), three_pages (Some ''t2'')]
   \<and> list_media_items three_pages
       = Some (replicate 100 (photo ''a'') @ replicate 100 (photo ''b'') @ replicate 37 (photo ''c''))
   \<and> (\<exists>xs. list_media_items three_pages = Some xs \<and> length xs = 237)"
proof -
  have s: "served three_pages (three_pages None) [three_pages (Some ''t1''), three_pages (Some ''t2'')]"
    by (simp add: three_pages_def)
  from list_media_items_concatenates [of three_pages "[three_pages (Some ''t1''), three_pages (Some ''t2'')]"] s
  have "list_media_items three_pages
      = Some (concat (map page_items [three_pages None, three_pages (Some ''t1''), three_pages (Some ''t2'')]))"
    by blast
  then have r: "list_media_items three_pages
       = Some (replicate 100 (photo ''a'') @ replicate 100 (photo ''b'') @ replicate 37 (photo ''c''))"
    by (simp add: three_pages_def page_items_def)
  from s r show ?thesis by simp
qed

section \<open>Properties of \<^verbatim>\<open>process_media_items\<close>\<close>

lemma process_item_complete:
  assumes "has_required_keys media item"
  shows "\<exists>r. process_item sanitize media dir album item = Inr r
            \<and> (r = None \<longleftrightarrow> \<not> is_media item)
            \<and> (\<forall>e. r = Some e \<longrightarrow> Some (e_uuid e) = item_id item)"
  using assms
  by (auto simp: has_required_keys_def process_item_def item_path_of_def media_entry_def
      is_media_def split: option.splits sum.splits)

lemma process_item_incomplete:
  assumes "\<not> has_required_keys media item"
  shows "\<exists>k. process_item sanitize media dir album item = Inl (KeyError k)"
  using assms
  by (auto simp: has_required_keys_def process_item_def item_path_of_def media_entry_def
      is_media_def split: option.splits sum.splits)

lemma process_loop_complete:
  assumes "list_all (has_required_keys media) items"
  shows "\<exists>entries. process_loop sanitize media dir album acc items = Inr (acc @ entries)
            \<and> map (\<lambda>e. Some (e_uuid e)) entries = map item_id (filter is_media items)"
  using assms
proof (induction items arbitrary: acc)
  case Nil
  then show ?case by simp
next
  case (Cons item items)
  then have req: "has_required_keys media item" and rest: "list_all (has_required_keys media) items"
    by simp_all
  from process_item_complete [OF req, of sanitize dir album]
  obtain r where r: "process_item sanitize media dir album item = Inr r"
      "r = None \<longleftrightarrow> \<not> is_media item" "\<forall>e. r = Some e \<longrightarrow> Some (e_uuid e) = item_id item"
    by blast
  show ?case
  proof (cases r)
    case None
    with r Cons.IH [OF rest, of acc] show ?thesis by auto
  next
    case (Some e)
    from Cons.IH [OF rest, of "acc @ [e]"]
    obtain entries where "process_loop sanitize media dir album (acc @ [e]) items = Inr ((acc @ [e]) @ entries)"
      "map (\<lambda>e. Some (e_uuid e)) entries = map item_id (filter is_media items)" by blast
    with r Some show ?thesis by (intro exI [of _ "e # entries"]) auto
  qed
qed

lemma process_loop_incomplete:
  assumes "\<not> list_all (has_required_keys media) items"
  shows "\<exists>k. process_loop sanitize media dir album acc items = Inl (KeyError k)"
  using assms
proof (induction items arbitrary: acc)
  case Nil
  then show ?case by simp
next
  case (Cons item items)
  show ?case
  proof (cases "has_required_keys media item")
    case False
    from process_item_incomplete [OF this, of sanitize dir album] show ?thesis by auto
  next
    case True
    with Cons.prems have rest: "\<not> list_all (has_required_keys media) items" by simp
    from process_item_complete [OF True, of sanitize dir album]
    obtain r where r: "process_item sanitize media dir album item = Inr r" by blast
    show ?thesis using r Cons.IH [OF rest] by (cases r) auto
  qed
qed

lemma process_media_items_complete:
  assumes "list_all (has_required_keys media) items"
  shows "\<exists>entries. process_media_items sanitize media items dir album = Inr entries
          \<and> map (\<lambda>e. Some (e_uuid e)) entries = map item_id (filter is_media items)"
  using process_loop_complete [OF assms, of sanitize dir album "[]"]
  by (simp add: process_media_items_def)

lemma process_media_items_incomplete:
  assumes "\<not> list_all (has_required_keys media) items"
  shows "\<exists>k. process_media_items sanitize media items dir album = Inl (KeyError k)"
  using process_loop_incomplete [OF assms, of sanitize dir album "[]"]
  by (simp add: process_media_items_def)


lemma item_path_of_stored:
  assumes "item_path_of sanitize media dir uuid item = Inr p"
  shows "case select_media_item media uuid of
             Some row \<Rightarrow> p = fst (snd row)
           | None \<Rightarrow> (\<exists>name. item_filename item = Some name \<and> p = dir @ ''/'' @ sanitize name)"
  using assms by (auto simp: item_path_of_def split: option.splits)


lemma process_loop_entries:
  assumes "process_loop sanitize media dir album acc items = Inr result"
  shows "\<exists>entries. result = acc @ entries
        \<and> list_all2 (\<lambda>item e. process_item sanitize media dir album item = Inr (Some e))
             (filter is_media items) entries"
  using assms
proof (induction items arbitrary: acc)
  case Nil
  then show ?case by simp
next
  case (Cons item items)
  show ?case
  proof (cases "process_item sanitize media dir album item")
    case (Inl err)
    with Cons.prems show ?thesis by simp
  next
    case (Inr r)
    have req: "has_required_keys media item"
      using Inr process_item_incomplete [of media item sanitize dir album] by auto
    from process_item_complete [OF req, of sanitize dir album] Inr
    have none: "r = None \<longleftrightarrow> \<not> is_media item" by simp
    show ?thesis
    proof (cases r)
      case None
      with Inr Cons.prems have "process_loop sanitize media dir album acc items = Inr result"
        by simp
      from Cons.IH [OF this] None none show ?thesis by simp
    next
      case (Some e)
      with Inr Cons.prems have "process_loop sanitize media dir album (acc @ [e]) items = Inr result"
        by simp
      from Cons.IH [OF this] obtain entries where "result = (acc @ [e]) @ entries"
        "list_all2 (\<lambda>item e. process_item sanitize media dir album item = Inr (Some e))
             (filter is_media items) entries" by blast
      with Some none Inr show ?thesis by (intro exI [of _ "e # entries"]) simp
    qed
  qed
qed

lemma process_media_items_entries:
  assumes "process_media_items sanitize media items dir album = Inr entries"
  shows "list_all2 (\<lambda>item e. process_item sanitize media dir album item = Inr (Some e))
             (filter is_media items) entries"
  using process_loop_entries [of sanitize media dir album "[]" items entries] assms
  by (simp add: process_media_items_def)

lemma media_entry_fields:
  assumes "media_entry uuid album p suffix item = Inr e"
  shows "e_uuid e = uuid \<and> e_album_uuid e = album \<and> e_path e = p
       \<and> e_description e = item_description item
       \<and> (\<exists>base. item_baseUrl item = Some base \<and> e_url e = base @ suffix)
       \<and> (\<exists>meta created. item_mediaMetadata item = Some meta
              \<and> creationTime meta = Some created \<and> e_creation_time e = Some created)"
  using assms by (auto simp: media_entry_def split: option.splits)

lemma process_item_fields:
  assumes "process_item sanitize media dir album item = Inr (Some e)"
  shows "item_id item = Some (e_uuid e)
       \<and> e_album_uuid e = album
       \<and> (\<exists>base mime. item_baseUrl item = Some base \<and> item_mimeType item = Some mime
              \<and> e_url e = base @ (if contains ''image'' mime then ''=d'' else ''=dv''))
       \<and> (case select_media_item media (e_uuid e) of
             Some row \<Rightarrow> e_path e = fst (snd row)
           | None \<Rightarrow> (\<exists>name. item_filename item = Some name
                        \<and> e_path e = dir @ ''/'' @ sanitize name))
       \<and> e_description e = item_description item
       \<and> (\<exists>meta created. item_mediaMetadata item = Some meta
              \<and> creationTime meta = Some created \<and> e_creation_time e = Some created)"
proof -
  from assms obtain uuid where uuid: "item_id item = Some uuid"
    by (auto simp: process_item_def split: option.splits)
  from assms uuid obtain p where p: "item_path_of sanitize media dir uuid item = Inr p"
    by (auto simp: process_item_def split: sum.splits)
  from assms uuid p obtain mime where mime: "item_mimeType item = Some mime"
    by (auto simp: process_item_def split: option.splits)
  let ?suffix = "if contains ''image'' mime then ''=d'' else ''=dv''"
  from assms uuid p mime
  have "media_entry uuid album p ?suffix item = Inr e"
    by (cases "media_entry uuid album p ''=d'' item"; cases "media_entry uuid album p ''=dv'' item")
       (auto simp: process_item_def split: if_splits)
  note f = media_entry_fields [OF this]
  from f have e: "e_uuid e = uuid" "e_path e = p" by simp_all
  from f obtain base where base: "item_baseUrl item = Some base" "e_url e = base @ ?suffix"
    by blast
  have url: "\<exists>base mime. item_baseUrl item = Some base \<and> item_mimeType item = Some mime
              \<and> e_url e = base @ (if contains ''image'' mime then ''=d'' else ''=dv'')"
    using base mime by (intro exI [of _ base] exI [of _ mime] conjI)
  have stored: "case select_media_item media (e_uuid e) of
             Some row \<Rightarrow> e_path e = fst (snd row)
           | None \<Rightarrow> (\<exists>name. item_filename item = Some name
                        \<and> e_path e = dir @ ''/'' @ sanitize name)"
    using item_path_of_stored [OF p] e by (auto split: option.splits)
  from f uuid e url stored show ?thesis by (intro conjI) simp_all
qed

lemma process_media_items_fields:
  assumes "process_media_items sanitize media items dir album = Inr entries"
  shows "list_all2
      (\<lambda>item e. item_id item = Some (e_uuid e)
         \<and> e_album_uuid e = album
         \<and> (\<exists>base mime. item_baseUrl item = Some base \<and> item_mimeType item = Some mime
                \<and> e_url e = base @ (if contains ''image'' mime then ''=d'' else ''=dv''))
         \<and> (case select_media_item media (e_uuid e) of
               Some row \<Rightarrow> e_path e = fst (snd row)
             | None \<Rightarrow> (\<exists>name. item_filename item = Some name
                          \<and> e_path e = dir @ ''/'' @ sanitize name))
         \<and> e_description e = item_description item
         \<and> (\<exists>meta created. item_mediaMetadata item = Some meta
                \<and> creationTime meta = Some created \<and> e_creation_time e = Some created))
      (filter is_media items) entries"
  using process_media_items_entries [OF assms]
  by (rule list_all2_mono) (rule process_item_fields)

text \<open>
  Claim C8 as stated fails: an image without a file name, and an image without a
  creation time, are not dropped; \<^verbatim>\<open>process_media_items\<close> raises KeyError for them.
\<close>

theorem process_media_items_missing_filename:
  "process_media_items (\<lambda>s. s) []
     [\<lparr>item_id = Some ''a'', item_filename = None, item_description = None,
       item_mimeType = Some ''image/jpeg'', item_baseUrl = Some ''https://lh3/a'',
       item_mediaMetadata = Some \<lparr>creationTime = Some ''2020-01-01T00:00:00Z''\<rparr>\<rparr>]
     ''Library'' None = Inl (KeyError ''filename'')
   \<and> process_media_items (\<lambda>s. s) []
     [\<lparr>item_id = Some ''a'', item_filename = Some ''a.jpg'', item_description = None,
       item_mimeType = Some ''image/jpeg'', item_baseUrl = Some ''https://lh3/a'',
       item_mediaMetadata = Some \<lparr>creationTime = None\<rparr>\<rparr>]
     ''Library'' None = Inl (KeyError ''creationTime'')"
  by (simp add: process_media_items_def process_item_def item_path_of_def select_media_item_def
      media_entry_def)

text \<open>
  Claim C8, as the code has it.  \<^verbatim>\<open>process_media_items\<close> returns a list exactly when every
  item carries the keys the loop reads for it (\<^verbatim>\<open>id\<close>, \<^verbatim>\<open>mimeType\<close>, \<^verbatim>\<open>filename\<close> unless the
  table has a row for the item, and for an image or a video \<^verbatim>\<open>baseUrl\<close> and
  \<^verbatim>\<open>mediaMetadata.creationTime\<close>).  The list then holds exactly one entry for each image
  or video item, in the order of the items, and nothing else: an item of another MIME type
  is dropped.  Each entry is determined by its item: its uuid is the item's id, its album
  is the album of the call, its URL is the item's \<^verbatim>\<open>baseUrl\<close> followed by \<^verbatim>\<open>=d\<close> for an image
  and by \<^verbatim>\<open>=dv\<close> for a video, its path is the path of the item's row in the table when
  there is one and the directory joined with the sanitized file name otherwise, its
  description is the item's, \<^verbatim>\<open>None\<close> when the item has none, and its creation time is the
  item's.  When some item lacks one of the keys the function raises KeyError: nothing is
  dropped silently, only a missing \<^verbatim>\<open>description\<close> has a default.
\<close>

theorem process_media_items_keys:
  "(list_all (has_required_keys media) items \<longrightarrow>
      (\<exists>entries. process_media_items sanitize media items dir album = Inr entries
          \<and> list_all2
               (\<lambda>item e. item_id item = Some (e_uuid e)
                  \<and> e_album_uuid e = album
                  \<and> (\<exists>base mime. item_baseUrl item = Some base \<and> item_mimeType item = Some mime
                         \<and> e_url e = base @ (if contains ''image'' mime then ''=d'' else ''=dv''))
                  \<and> (case select_media_item media (e_uuid e) of
                        Some row \<Rightarrow> e_path e = fst (snd row)
                      | None \<Rightarrow> (\<exists>name. item_filename item = Some name
                                   \<and> e_path e = dir @ ''/'' @ sanitize name))
                  \<and> e_description e = item_description item
                  \<and> (\<exists>meta created. item_mediaMetadata item = Some meta
                         \<and> creationTime meta = Some created \<and> e_creation_time e = Some created))
               (filter is_media items) entries))
   \<and> (\<not> list_all (has_required_keys media) items \<longrightarrow>
      (\<exists>k. process_media_items sanitize media items dir album = Inl (KeyError k)))"
proof (intro conjI impI)
  assume "list_all (has_required_keys media) items"
  from process_media_items_complete [OF this, of sanitize dir album]
  obtain entries where e: "process_media_items sanitize media items dir album = Inr entries"
    by blast
  from e process_media_items_fields [OF e]
  show "\<exists>entries. process_media_items sanitize media items dir album = Inr entries
          \<and> list_all2
               (\<lambda>item e. item_id item = Some (e_uuid e)
                  \<and> e_album_uuid e = album
                  \<and> (\<exists>base mime. item_baseUrl item = Some base \<and> item_mimeType item = Some mime
                         \<and> e_url e = base @ (if contains ''image'' mime then ''=d'' else ''=dv''))
                  \<and> (case select_media_item media (e_uuid e) of
                        Some row \<Rightarrow> e_path e = fst (snd row)
                      | None \<Rightarrow> (\<exists>name. item_filename item = Some name
                                   \<and> e_path e = dir @ ''/'' @ sanitize name))
                  \<and> e_description e = item_description item
                  \<and> (\<exists>meta created. item_mediaMetadata item = Some meta
                         \<and> creationTime meta = Some created \<and> e_creation_time e = Some created))
               (filter is_media items) entries"
    by (intro exI [of _ entries] conjI)
next
  assume "\<not> list_all (has_required_keys media) items"
  then show "\<exists>k. process_media_items sanitize media items dir album = Inl (KeyError k)"
    by (rule process_media_items_incomplete)
qed

theorem process_media_items_keys_witness:
  "list_all (has_required_keys stored) [photo ''a'', memo ''n'', clip ''v'']
   \<and> process_media_items (\<lambda>s. s) stored [photo ''a'', memo ''n'', clip ''v''] ''Library'' None
       = Inr [\<lparr>e_uuid = ''a'', e_album_uuid = None, e_url = ''https://lh3/a=d'',
               e_path = ''Library/a.jpg'', e_description = None,
               e_creation_time = Some ''2020-01-01T00:00:00Z''\<rparr>,
              \<lparr>e_uuid = ''v'', e_album_uuid = None, e_url = ''https://lh3/v=dv'',
               e_path = ''Albums/Sea/old.mp4'', e_description = Some ''beach'',
               e_creation_time = Some ''2021-06-01T10:00:00Z''\<rparr>]
   \<and> \<not> list_all (has_required_keys []) [photo ''a'', \<lparr>item_id = Some ''b'', item_filename = None,
         item_description = None, item_mimeType = Some ''text/plain'', item_baseUrl = None,
         item_mediaMetadata = None\<rparr>]
   \<and> (\<exists>k. process_media_items (\<lambda>s. s) [] [photo ''a'', \<lparr>item_id = Some ''b'', item_filename = None,
         item_description = None, item_mimeType = Some ''text/plain'', item_baseUrl = None,
         item_mediaMetadata = None\<rparr>] ''Library'' None = Inl (KeyError k))"
proof -
  let ?bad = "\<lparr>item_id = Some ''b'', item_filename = None,
         item_description = None, item_mimeType = Some ''text/plain'', item_baseUrl = None,
         item_mediaMetadata = None\<rparr>"
  let ?items = "[photo ''a'', memo ''n'', clip ''v'']"
  have ok: "list_all (has_required_keys stored) ?items"
    by (simp add: has_required_keys_def photo_def memo_def clip_def is_media_def
        select_media_item_def stored_def)
  from process_media_items_keys [of stored ?items "\<lambda>s. s" "''Library''" None,
      THEN conjunct1, THEN mp, OF ok]
  obtain entries where e: "process_media_items (\<lambda>s. s) stored ?items ''Library'' None = Inr entries"
    by (elim exE conjE) (rule that)
  have "process_media_items (\<lambda>s. s) stored ?items ''Library'' None
       = Inr [\<lparr>e_uuid = ''a'', e_album_uuid = None, e_url = ''https://lh3/a=d'',
               e_path = ''Library/a.jpg'', e_description = None,
               e_creation_time = Some ''2020-01-01T00:00:00Z''\<rparr>,
              \<lparr>e_uuid = ''v'', e_album_uuid = None, e_url = ''https://lh3/v=dv'',
               e_path = ''Albums/Sea/old.mp4'', e_description = Some ''beach'',
               e_creation_time = Some ''2021-06-01T10:00:00Z''\<rparr>]"
    by (simp add: process_media_items_def process_item_def item_path_of_def media_entry_def
        select_media_item_def photo_def memo_def clip_def stored_def)
  with e have kept: "process_media_items (\<lambda>s. s) stored ?items ''Library'' None
       = Inr [\<lparr>e_uuid = ''a'', e_album_uuid = None, e_url = ''https://lh3/a=d'',
               e_path = ''Library/a.jpg'', e_description = None,
               e_creation_time = Some ''2020-01-01T00:00:00Z''\<rparr>,
              \<lparr>e_uuid = ''v'', e_album_uuid = None, e_url = ''https://lh3/v=dv'',
               e_path = ''Albums/Sea/old.mp4'', e_description = Some ''beach'',
               e_creation_time = Some ''2021-06-01T10:00:00Z''\<rparr>]" by simp
  have bad: "\<not> list_all (has_required_keys []) [photo ''a'', ?bad]"
    by (simp add: has_required_keys_def select_media_item_def)
  from process_media_items_keys [of "[]" "[photo ''a'', ?bad]" "\<lambda>s. s" "''Library''" None,
      THEN conjunct2, THEN mp, OF bad]
  have raised: "\<exists>k. process_media_items (\<lambda>s. s) [] [photo ''a'', ?bad] ''Library'' None = Inl (KeyError k)"
    by simp
  show ?thesis by (intro conjI) (fact ok, fact kept, fact bad, fact raised)
qed

section \<open>Properties of the worker and the draining loop\<close>

lemma isfile_fmupd_file [simp]: "isfile (fmupd q (File c) fs) p \<longleftrightarrow> p = q \<or> isfile fs p"
  by (auto simp: isfile_def)

lemma isfile_exists: "isfile fs p \<Longrightarrow> exists_path fs p"
  by (auto simp: isfile_def exists_path_def split: option.splits)

lemma write_response_keeps:
  "isfile fs p \<Longrightarrow> isfile (snd (write_response env fs r path)) p"
  by (simp add: write_response_def)

lemma write_response_written:
  "fst (write_response env fs r path) \<Longrightarrow> isfile (snd (write_response env fs r path)) path"
  by (simp add: write_response_def split: if_splits)

lemma put_in_place_isfile [simp]: "isfile (put_in_place fs path x) p \<longleftrightarrow> isfile fs p"
  by (auto simp: put_in_place_def isfile_def split: option.splits node.splits)

lemma write_sidecar_keeps:
  "isfile fs p \<Longrightarrow> isfile (snd (write_sidecar env calls fs path x)) p"
  by (simp add: write_sidecar_def Let_def)

lemma embed_metadata_keeps:
  "isfile fs p \<Longrightarrow> isfile (snd (snd (embed_metadata env fs path d c))) p"
proof -
  assume f: "isfile fs p"
  have "\<And>x. isfile (snd (write_sidecar env (libxmp env path) fs path x)) p"
    using f by (rule write_sidecar_keeps)
  then show ?thesis
    using f by (simp add: embed_metadata_def Let_def split: raising.splits prod.splits)
qed

lemma metadata_block_keeps:
  "isfile fs p \<Longrightarrow> isfile (snd (snd (metadata_block env fs path entry))) p"
  by (simp add: metadata_block_def embed_metadata_keeps)

lemma worker_present:
  "isfile (files w) (e_path entry) \<Longrightarrow> download_media_item env w entry = (AlreadyPresent, w)"
  by (simp add: download_media_item_def)

lemma worker_cases [case_names present raised status unwritten unclosed downloaded]:
  obtains
    "isfile (files w) (e_path entry)" "download_media_item env w entry = (AlreadyPresent, w)"
  | "\<not> isfile (files w) (e_path entry)" "get env (e_url entry) = Raises"
      "download_media_item env w entry = (Failed, w\<lparr>requested := requested w @ [e_url entry]\<rparr>)"
  | r where "\<not> isfile (files w) (e_path entry)" "get env (e_url entry) = Returns r"
      "status_code r \<noteq> 200"
      "download_media_item env w entry = (Failed, w\<lparr>requested := requested w @ [e_url entry]\<rparr>)"
  | r fs1 where "\<not> isfile (files w) (e_path entry)" "get env (e_url entry) = Returns r"
      "status_code r = 200"
      "write_response env (files w) r (auto_filename (files w) (e_path entry) 0) = (False, fs1)"
      "download_media_item env w entry
         = (Failed, w\<lparr>requested := requested w @ [e_url entry], files := fs1\<rparr>)"
  | r fs1 mode fs2 where "\<not> isfile (files w) (e_path entry)" "get env (e_url entry) = Returns r"
      "status_code r = 200"
      "write_response env (files w) r (auto_filename (files w) (e_path entry) 0) = (True, fs1)"
      "metadata_block env fs1 (auto_filename (files w) (e_path entry) 0) entry = (False, mode, fs2)"
      "download_media_item env w entry
         = (Failed, w\<lparr>requested := requested w @ [e_url entry], files := fs2\<rparr>)"
  | r fs1 mode fs2 where "\<not> isfile (files w) (e_path entry)" "get env (e_url entry) = Returns r"
      "status_code r = 200"
      "write_response env (files w) r (auto_filename (files w) (e_path entry) 0) = (True, fs1)"
      "metadata_block env fs1 (auto_filename (files w) (e_path entry) 0) entry = (True, mode, fs2)"
      "download_media_item env w entry
         = (Downloaded (e_uuid entry) (auto_filename (files w) (e_path entry) 0) (e_album_uuid entry),
            w\<lparr>requested := requested w @ [e_url entry], files := fs2,
              downloads := downloads w + 1\<rparr>)"
proof (cases "isfile (files w) (e_path entry)")
  case True
  then show ?thesis using that(1) by (simp add: worker_present)
next
  case absent: False
  show ?thesis
  proof (cases "get env (e_url entry)")
    case Raises
    with absent show ?thesis using that(2) by (simp add: download_media_item_def)
  next
    case (Returns r)
    show ?thesis
    proof (cases "status_code r = 200")
      case False
      with absent Returns show ?thesis
        using that(3) by (simp add: download_media_item_def)
    next
      case ok: True
      let ?path = "auto_filename (files w) (e_path entry) 0"
      obtain written fs1 where wr: "write_response env (files w) r ?path = (written, fs1)"
        by (cases "write_response env (files w) r ?path")
      show ?thesis
      proof (cases written)
        case False
        with absent Returns ok wr show ?thesis
          using that(4) by (simp add: download_media_item_def Let_def)
      next
        case wrote: True
        obtain cleaned mode fs2 where m: "metadata_block env fs1 ?path entry = (cleaned, mode, fs2)"
          by (cases "metadata_block env fs1 ?path entry")
        show ?thesis
        proof (cases cleaned)
          case True
          with absent Returns ok wr wrote m show ?thesis
            using that(6) by (simp add: download_media_item_def Let_def)
        next
          case False
          with absent Returns ok wr wrote m show ?thesis
            using that(5) by (simp add: download_media_item_def Let_def)
        qed
      qed
    qed
  qed
qed

lemma worker_keeps:
  assumes "isfile (files w) p"
  shows "isfile (files (snd (download_media_item env w entry))) p"
proof (cases rule: worker_cases [where w = w and entry = entry and env = env])
  case present
  with assms show ?thesis by simp
next
  case raised
  with assms show ?thesis by simp
next
  case (status r)
  with assms show ?thesis by simp
next
  case (unwritten r fs1)
  then have "fs1 = snd (write_response env (files w) r (auto_filename (files w) (e_path entry) 0))"
    by simp
  with assms unwritten show ?thesis by (simp add: write_response_keeps)
next
  case (unclosed r fs1 mode fs2)
  then have "fs1 = snd (write_response env (files w) r (auto_filename (files w) (e_path entry) 0))"
    by simp
  with assms have "isfile fs1 p" by (simp add: write_response_keeps)
  then have "isfile (snd (snd (metadata_block env fs1 (auto_filename (files w) (e_path entry) 0) entry))) p"
    by (rule metadata_block_keeps)
  with unclosed show ?thesis by simp
next
  case (downloaded r fs1 mode fs2)
  then have "fs1 = snd (write_response env (files w) r (auto_filename (files w) (e_path entry) 0))"
    by simp
  with assms have "isfile fs1 p" by (simp add: write_response_keeps)
  then have "isfile (snd (snd (metadata_block env fs1 (auto_filename (files w) (e_path entry) 0) entry))) p"
    by (rule metadata_block_keeps)
  with downloaded show ?thesis by simp
qed

lemma worker_downloaded:
  assumes "download_media_item env w entry = (Downloaded uuid path album_uuid, w')"
  shows "uuid = e_uuid entry \<and> album_uuid = e_album_uuid entry
       \<and> path = auto_filename (files w) (e_path entry) 0
       \<and> \<not> isfile (files w) (e_path entry)
       \<and> (\<exists>r. get env (e_url entry) = Returns r \<and> status_code r = 200
              \<and> fst (write_response env (files w) r path))
       \<and> isfile (files w') path"
proof (cases rule: worker_cases [where w = w and entry = entry and env = env])
  case (downloaded r fs1 mode fs2)
  let ?path = "auto_filename (files w) (e_path entry) 0"
  from downloaded have fs1: "fs1 = snd (write_response env (files w) r ?path)"
    and wrote: "fst (write_response env (files w) r ?path)" by simp_all
  then have "isfile fs1 ?path" by (simp add: write_response_written)
  then have "isfile (snd (snd (metadata_block env fs1 ?path entry))) ?path"
    by (rule metadata_block_keeps)
  with downloaded have "isfile fs2 ?path" by simp
  with assms downloaded wrote show ?thesis by auto
qed (use assms in simp_all)

lemma drain_inserted: "drain media outs = media @ inserted_rows outs"
  by (induction media outs rule: drain.induct) (simp_all add: insert_media_item_def)

lemma run_pool_Cons:
  "run_pool env w (entry # entries)
     = (fst (download_media_item env w entry)
          # fst (run_pool env (snd (download_media_item env w entry)) entries),
        snd (run_pool env (snd (download_media_item env w entry)) entries))"
  by (simp add: case_prod_beta)

lemma run_pool_length: "length (fst (run_pool env w entries)) = length entries"
  by (induction entries arbitrary: w) (simp_all add: case_prod_beta)

lemma run_pool_keeps:
  "isfile (files w) p \<Longrightarrow> isfile (files (snd (run_pool env w entries))) p"
proof (induction entries arbitrary: w)
  case Nil
  then show ?case by simp
next
  case (Cons entry entries)
  from Cons.prems have "isfile (files (snd (download_media_item env w entry))) p"
    by (rule worker_keeps)
  then show ?case using Cons.IH by (simp add: case_prod_beta)
qed

lemma inserted_rows_Cons:
  "row \<in> set (inserted_rows (out # outs)) \<longleftrightarrow>
     (\<exists>u p a. out = Downloaded u p a \<and> row = (u, p, a)) \<or> row \<in> set (inserted_rows outs)"
  by (cases out) auto

lemma run_pool_rows:
  assumes "row \<in> set (inserted_rows (fst (run_pool env w entries)))"
  shows "isfile (files (snd (run_pool env w entries))) (fst (snd row))
       \<and> (\<exists>e\<in>set entries. fst row = e_uuid e \<and> snd (snd row) = e_album_uuid e
             \<and> \<not> isfile (files w) (e_path e)
             \<and> (\<exists>r. get env (e_url e) = Returns r \<and> status_code r = 200))"
  using assms
proof (induction entries arbitrary: w)
  case Nil
  then show ?case by simp
next
  case (Cons entry entries)
  let ?out = "fst (download_media_item env w entry)"
  let ?w1 = "snd (download_media_item env w entry)"
  from Cons.prems have "row \<in> set (inserted_rows (?out # fst (run_pool env ?w1 entries)))"
    by (simp add: case_prod_beta)
  then consider (head) u p a where "?out = Downloaded u p a" "row = (u, p, a)"
    | (tail) "row \<in> set (inserted_rows (fst (run_pool env ?w1 entries)))"
    by (auto simp: inserted_rows_Cons)
  then show ?case
  proof cases
    case head
    then have "download_media_item env w entry = (Downloaded u p a, ?w1)"
      by (metis prod.collapse)
    from worker_downloaded [OF this] head
    have d: "u = e_uuid entry" "a = e_album_uuid entry" "\<not> isfile (files w) (e_path entry)"
      "\<exists>r. get env (e_url entry) = Returns r \<and> status_code r = 200" "isfile (files ?w1) p"
      by auto
    from d(5) have "isfile (files (snd (run_pool env ?w1 entries))) p" by (rule run_pool_keeps)
    with head d show ?thesis by (simp add: case_prod_beta)
  next
    case tail
    from Cons.IH [OF tail]
    obtain e where e: "isfile (files (snd (run_pool env ?w1 entries))) (fst (snd row))"
      "e \<in> set entries" "fst row = e_uuid e" "snd (snd row) = e_album_uuid e"
      "\<not> isfile (files ?w1) (e_path e)"
      "\<exists>r. get env (e_url e) = Returns r \<and> status_code r = 200" by blast
    from e(5) have "\<not> isfile (files w) (e_path e)" using worker_keeps by blast
    with e show ?thesis by (auto simp: case_prod_beta)
  qed
qed

lemma run_pool_distinct:
  assumes "distinct (map e_uuid entries)"
  shows "distinct (map fst (inserted_rows (fst (run_pool env w entries))))"
  using assms
proof (induction entries arbitrary: w)
  case Nil
  then show ?case by simp
next
  case (Cons entry entries)
  let ?out = "fst (download_media_item env w entry)"
  let ?w1 = "snd (download_media_item env w entry)"
  from Cons.prems have new: "e_uuid entry \<notin> e_uuid ` set entries"
    and rest: "distinct (map e_uuid entries)" by simp_all
  have ih: "distinct (map fst (inserted_rows (fst (run_pool env ?w1 entries))))"
    using Cons.IH [OF rest] .
  have fresh: "e_uuid entry \<notin> fst ` set (inserted_rows (fst (run_pool env ?w1 entries)))"
  proof
    assume "e_uuid entry \<in> fst ` set (inserted_rows (fst (run_pool env ?w1 entries)))"
    then obtain row where "row \<in> set (inserted_rows (fst (run_pool env ?w1 entries)))"
      "fst row = e_uuid entry" by auto
    with run_pool_rows [of row env ?w1 entries] new show False by force
  qed
  show ?case
  proof (cases ?out)
    case (Downloaded u p a)
    then have "download_media_item env w entry = (Downloaded u p a, ?w1)"
      by (metis prod.collapse)
    from worker_downloaded [OF this] have "u = e_uuid entry" by simp
    with Downloaded ih fresh show ?thesis by (simp add: case_prod_beta)
  next
    case AlreadyPresent
    with ih show ?thesis by (simp add: case_prod_beta)
  next
    case Failed
    with ih show ?thesis by (simp add: case_prod_beta)
  qed
qed

lemma download_eq:
  "download env (w, media) entries
     = (snd (run_pool env w entries), media @ inserted_rows (fst (run_pool env w entries)))"
  by (simp add: download_def case_prod_beta drain_inserted)

lemma select_append:
  "select_media_item (media @ new) u
     = (case select_media_item media u of None \<Rightarrow> select_media_item new u | Some row \<Rightarrow> Some row)"
  by (induction media) (simp_all add: select_media_item_def)

lemma select_None: "select_media_item media u = None \<longleftrightarrow> u \<notin> fst ` set media"
  by (induction media) (auto simp: select_media_item_def)


text \<open>
  Claim C1, as the code has it.  When every entry of an item in the batch has its target
  file on disk, the worker answers \<open>AlreadyPresent\<close> for it without a request and the loop
  inserts nothing: the first row that \<^verbatim>\<open>select_media_item\<close> finds for the item after the run
  is the one it found before, so an item without a row still has none.
\<close>

theorem download_inserts_nothing_for_present_files:
  assumes "\<forall>e\<in>set entries. e_uuid e = uuid \<longrightarrow> isfile (files w) (e_path e)"
  shows "select_media_item (snd (download env (w, media) entries)) uuid
           = select_media_item media uuid
       \<and> (\<forall>e\<in>set entries. e_uuid e = uuid \<longrightarrow>
            download_media_item env w e = (AlreadyPresent, w)
            \<and> download env (w, media) [e] = (w, media))"
proof -
  have "uuid \<notin> fst ` set (inserted_rows (fst (run_pool env w entries)))"
  proof
    assume "uuid \<in> fst ` set (inserted_rows (fst (run_pool env w entries)))"
    then obtain row where "row \<in> set (inserted_rows (fst (run_pool env w entries)))"
      "fst row = uuid" by auto
    with run_pool_rows [of row env w entries] assms show False by force
  qed
  then have "select_media_item (inserted_rows (fst (run_pool env w entries))) uuid = None"
    by (simp add: select_None)
  then have "select_media_item (snd (download env (w, media) entries)) uuid
           = select_media_item media uuid"
    by (simp add: download_eq select_append split: option.splits)
  moreover have "\<forall>e\<in>set entries. e_uuid e = uuid \<longrightarrow>
            download_media_item env w e = (AlreadyPresent, w)
            \<and> download env (w, media) [e] = (w, media)"
    using assms by (simp add: worker_present download_def)
  ultimately show ?thesis by simp
qed

text \<open>
  Claim C1 as stated fails: the file of item \<open>a\<close> is on disk and the table is empty; after
  the worker and the draining loop have run, the table is still empty.
\<close>

theorem download_backfills_no_row:
  "isfile (files archived) (e_path (task ''a''))
   \<and> select_media_item [] ''a'' = None
   \<and> download_media_item calm archived (task ''a'') = (AlreadyPresent, archived)
   \<and> download calm (archived, []) [task ''a''] = (archived, [])
   \<and> select_media_item (snd (download calm (archived, []) [task ''a''])) ''a'' = None"
  by (simp add: download_def download_media_item_def archived_def task_def isfile_def
      select_media_item_def)

theorem download_inserts_nothing_for_present_files_witness:
  "isfile (files archived) (e_path (task ''a'')) \<and> e_uuid (task ''b'') \<noteq> ''a''
   \<and> select_media_item (snd (download calm (archived, []) [task ''a'', task ''b''])) ''a'' = None"
proof -
  have h: "\<forall>e\<in>set [task ''a'', task ''b'']. e_uuid e = ''a'' \<longrightarrow> isfile (files archived) (e_path e)"
    by (simp add: task_def archived_def isfile_def)
  from download_inserts_nothing_for_present_files [OF h, of calm "[]"]
  have "select_media_item (snd (download calm (archived, []) [task ''a'', task ''b''])) ''a''
      = select_media_item [] ''a''" by (rule conjunct1)
  then have "select_media_item (snd (download calm (archived, []) [task ''a'', task ''b''])) ''a''
      = None" by (simp add: select_media_item_def)
  moreover have "isfile (files archived) (e_path (task ''a''))"
    by (simp add: task_def archived_def isfile_def)
  moreover have "e_uuid (task ''b'') \<noteq> ''a''" by (simp add: task_def)
  ultimately show ?thesis by (intro conjI)
qed

section \<open>Properties of the states of a run\<close>

lemma inserted_rows_append:
  "inserted_rows (xs @ ys) = inserted_rows xs @ inserted_rows ys"
  by (induction xs rule: inserted_rows.induct) simp_all

text \<open>Files are never removed, and a thread keeps its entry.\<close>

lemma isfile_write_chunk [simp]: "isfile (write_chunk fs path pos chunk) q \<longleftrightarrow> isfile fs q"
  by (auto simp: write_chunk_def isfile_def split: option.splits node.splits)

lemma isfile_fmupd_grows: "isfile fs q \<Longrightarrow> isfile (fmupd p (File c) fs) q"
  by simp









lemma pool_step_streamed:
  assumes "pool_step env n s s'"
  shows "set (p_streamed s) \<subseteq> set (p_streamed s')"
  using assms by cases auto







text \<open>
  A thread that runs alone goes through the steps of \<^verbatim>\<open>download_media_item\<close> and ends with
  its outcome and its world: a batch in which the threads run one after the other, each to
  its end, is \<open>run_pool\<close> followed by the loop, so that \<open>download\<close> is one of the runs of the
  pool.
\<close>

lemma alone_step:
  assumes "thread_step env w t = (w', t')"
  shows "pool_step env n (alone m es w t l) (alone m es w' t' (l @ completes t))"
  using pool_step.run [of "alone m es w t l" "[]" t "[]" env w' t' n] assms
  by (simp add: alone_def)

lemma alone_then:
  assumes "thread_step env w t = (w', t')"
    and "(pool_step env n)\<^sup>*\<^sup>* (alone m es w' t' l) goal"
    and "completes t = []"
  shows "(pool_step env n)\<^sup>*\<^sup>* (alone m es w t l) goal"
  using alone_step [OF assms(1), of n m es l] assms(2,3)
  by (simp add: converse_rtranclp_into_rtranclp)

lemma alone_last:
  assumes "thread_step env w t = (w', t')" and "completes t = []"
  shows "(pool_step env n)\<^sup>*\<^sup>* (alone m es w t l) (alone m es w' t' l)"
  using assms(1) by (rule alone_then) (simp_all add: assms(2))

lemma alone_naming:
  assumes "\<not> exists_path (files w) (filename_candidate (e_path e) k)"
    and "\<forall>j. i \<le> j \<and> j < k \<longrightarrow> exists_path (files w) (filename_candidate (e_path e) j)"
    and "i \<le> k"
  shows "(pool_step env n)\<^sup>*\<^sup>* (alone m es w (Naming e r i) l)
           (alone m es w (Opening e r (filename_candidate (e_path e) k)) l)"
  using assms
proof (induction "k - i" arbitrary: i)
  case 0
  then have "i = k" by simp
  with 0 have "thread_step env w (Naming e r i) = (w, Opening e r (filename_candidate (e_path e) k))"
    by (simp add: Let_def)
  then show ?case by (rule alone_last) simp
next
  case (Suc d)
  then have lt: "i < k" by simp
  with Suc.prems have "exists_path (files w) (filename_candidate (e_path e) i)" by simp
  then have one: "thread_step env w (Naming e r i) = (w, Naming e r (i + 1))"
    by (simp add: Let_def)
  have "(pool_step env n)\<^sup>*\<^sup>* (alone m es w (Naming e r (i + 1)) l)
           (alone m es w (Opening e r (filename_candidate (e_path e) k)) l)"
    using Suc.hyps(1) [of "i + 1"] Suc.hyps(2) Suc.prems lt by simp
  with one show ?case by (rule alone_then) simp
qed

lemma alone_names:
  "(pool_step env n)\<^sup>*\<^sup>* (alone m es w (Naming e r 0) l)
      (alone m es w (Opening e r (auto_filename (files w) (e_path e) 0)) l)"
proof -
  from auto_filename_result [of "files w" "e_path e"]
  obtain k where k: "\<not> exists_path (files w) (filename_candidate (e_path e) k)"
      "\<forall>j<k. exists_path (files w) (filename_candidate (e_path e) j)"
      "auto_filename (files w) (e_path e) 0 = filename_candidate (e_path e) k" by blast
  have "(pool_step env n)\<^sup>*\<^sup>* (alone m es w (Naming e r 0) l)
           (alone m es w (Opening e r (filename_candidate (e_path e) k)) l)"
    using k(1,2) by (intro alone_naming) simp_all
  with k(3) show ?thesis by simp
qed

lemma write_at_end: "write_at b (length b) chunk = b @ chunk"
  by (simp add: write_at_def)

lemma alone_streaming:
  "(pool_step env n)\<^sup>*\<^sup>*
     (alone m es (w\<lparr>files := fmupd path (File (Raw b)) fs\<rparr>) (Streaming e r path (length b) rest) l)
     (alone m es (w\<lparr>files := fmupd path (File (Raw (b @ concat rest))) fs\<rparr>)
        (Streaming e r path (length b + length (concat rest)) []) l)"
proof (induction rest arbitrary: b)
  case Nil
  show ?case by simp
next
  case (Cons chunk rest)
  have one: "thread_step env (w\<lparr>files := fmupd path (File (Raw b)) fs\<rparr>)
        (Streaming e r path (length b) (chunk # rest))
      = (w\<lparr>files := fmupd path (File (Raw (b @ chunk))) fs\<rparr>,
         Streaming e r path (length (b @ chunk)) rest)"
    by (simp add: write_chunk_def write_at_end)
  from Cons [of "b @ chunk"]
  have "(pool_step env n)\<^sup>*\<^sup>*
     (alone m es (w\<lparr>files := fmupd path (File (Raw (b @ chunk))) fs\<rparr>)
        (Streaming e r path (length (b @ chunk)) rest) l)
     (alone m es (w\<lparr>files := fmupd path (File (Raw (b @ concat (chunk # rest)))) fs\<rparr>)
        (Streaming e r path (length b + length (concat (chunk # rest))) []) l)"
    by (simp add: add.assoc)
  with one show ?case by (rule alone_then) simp
qed

lemma alone_closing:
  "(pool_step env n)\<^sup>*\<^sup>* (alone m es w (Closing e path) l)
     (alone m es w (if \<not> xmpfiles_ok (libxmp env path) \<or> close_file_ok (libxmp env path)
                    then Counting e path else Finished e Failed) l)"
  by (rule alone_last) simp_all

lemma alone_sidecar:
  assumes "write_sidecar env (libxmp env path) (files w) path x = (mode, fs2)"
  shows "(pool_step env n)\<^sup>*\<^sup>* (alone m es w (Sidecar_opening e path x) l)
     (alone m es (w\<lparr>files := fs2\<rparr>) (Closing e path) l)"
proof (cases "\<not> open_ok env (path @ ''.xmp'') \<or> fmlookup (files w) (path @ ''.xmp'') = Some Dir")
  case True
  with assms have "fs2 = files w" by (auto simp: write_sidecar_def Let_def)
  moreover from True have "thread_step env w (Sidecar_opening e path x) = (w, Closing e path)"
    by (auto simp: Let_def)
  then have "(pool_step env n)\<^sup>*\<^sup>* (alone m es w (Sidecar_opening e path x) l)
     (alone m es w (Closing e path) l)"
    by (rule alone_last) simp
  ultimately show ?thesis by simp
next
  case False
  let ?w1 = "w\<lparr>files := fmupd (path @ ''.xmp'') (File (Raw [])) (files w)\<rparr>"
  from False have one: "thread_step env w (Sidecar_opening e path x) = (?w1, Sidecar_writing e path x)"
    by (auto simp: Let_def)
  from False assms have fs2: "fs2 = (if serialize_ok (libxmp env path)
      then fmupd (path @ ''.xmp'') (File (Packet x)) (files w)
      else fmupd (path @ ''.xmp'') (File (Raw [])) (files w))"
    by (auto simp: write_sidecar_def Let_def split: if_splits)
  have two: "thread_step env ?w1 (Sidecar_writing e path x) = (w\<lparr>files := fs2\<rparr>, Closing e path)"
    by (simp add: fs2)
  have "(pool_step env n)\<^sup>*\<^sup>* (alone m es ?w1 (Sidecar_writing e path x) l)
     (alone m es (w\<lparr>files := fs2\<rparr>) (Closing e path) l)"
    using two by (rule alone_last) simp
  with one show ?thesis by (rule alone_then) simp
qed

lemma alone_tagging:
  assumes "metadata_block env (files w) path e = (cleaned, mode, fs2)"
  shows "(pool_step env n)\<^sup>*\<^sup>* (alone m es w (Tagging e path) l)
     (alone m es (w\<lparr>files := fs2\<rparr>) (if cleaned then Counting e path else Finished e Failed) l)"
proof (cases "truthy (e_description e) \<or> e_creation_time e \<noteq> None")
  case False
  with assms have "cleaned" "fs2 = files w" by (auto simp: metadata_block_def)
  moreover from False have "thread_step env w (Tagging e path) = (w, Counting e path)" by auto
  then have "(pool_step env n)\<^sup>*\<^sup>* (alone m es w (Tagging e path) l)
      (alone m es w (Counting e path) l)"
    by (rule alone_last) simp
  ultimately show ?thesis by simp
next
  case block: True
  let ?calls = "libxmp env path"
  let ?fresh = "case (if xmpfiles_ok ?calls
                      then (case get_xmp ?calls of Returns x \<Rightarrow> x | Raises \<Rightarrow> None)
                      else None) of None \<Rightarrow> [] | Some x \<Rightarrow> x"
  let ?props = "set_properties env ?calls ?fresh (e_description e) (e_creation_time e)"
  let ?closed = "if \<not> xmpfiles_ok ?calls \<or> close_file_ok ?calls
                 then Counting e path else Finished e Failed"
  from block assms
  have embed: "embed_metadata env (files w) path (e_description e) (e_creation_time e)
      = (cleaned, mode, fs2)"
    by (simp add: metadata_block_def)
  show ?thesis
  proof (cases ?props)
    case Raises
    with embed have r: "cleaned = (\<not> xmpfiles_ok ?calls \<or> close_file_ok ?calls)" "fs2 = files w"
      by (auto simp: embed_metadata_def Let_def)
    from block Raises have one: "thread_step env w (Tagging e path) = (w, Closing e path)"
      by (simp add: Let_def)
    from one alone_closing [of env n m es w e path l]
    have "(pool_step env n)\<^sup>*\<^sup>* (alone m es w (Tagging e path) l) (alone m es w ?closed l)"
      by (rule alone_then) simp
    with r show ?thesis by simp
  next
    case (Returns x)
    show ?thesis
    proof (cases "saved_in_place ?calls")
      case True
      with embed Returns have r: "cleaned" "fs2 = put_in_place (files w) path x"
        by (auto simp: embed_metadata_def Let_def)
      from block Returns True
      have "thread_step env w (Tagging e path)
          = (w\<lparr>files := put_in_place (files w) path x\<rparr>, Counting e path)"
        by (simp add: Let_def)
      then have "(pool_step env n)\<^sup>*\<^sup>* (alone m es w (Tagging e path) l)
          (alone m es (w\<lparr>files := put_in_place (files w) path x\<rparr>) (Counting e path) l)"
        by (rule alone_last) simp
      with r show ?thesis by simp
    next
      case False
      obtain mode' fs' where side: "write_sidecar env ?calls (files w) path x = (mode', fs')"
        by (cases "write_sidecar env ?calls (files w) path x")
      with embed Returns False
      have r: "cleaned = (\<not> xmpfiles_ok ?calls \<or> close_file_ok ?calls)" "fs2 = fs'"
        by (auto simp: embed_metadata_def Let_def)
      from block Returns False
      have one: "thread_step env w (Tagging e path) = (w, Sidecar_opening e path x)"
        by (simp add: Let_def)
      have "(pool_step env n)\<^sup>*\<^sup>* (alone m es w (Sidecar_opening e path x) l)
          (alone m es (w\<lparr>files := fs'\<rparr>) ?closed l)"
        using alone_sidecar [OF side, of n m es e l]
          alone_closing [of env n m es "w\<lparr>files := fs'\<rparr>" e path l]
        by (rule rtranclp_trans)
      with one have "(pool_step env n)\<^sup>*\<^sup>* (alone m es w (Tagging e path) l)
          (alone m es (w\<lparr>files := fs'\<rparr>) ?closed l)"
        by (rule alone_then) simp
      with r show ?thesis by simp
    qed
  qed
qed

lemma alone_counting:
  "(pool_step env n)\<^sup>*\<^sup>* (alone m es w (Counting e path) l)
     (alone m es (w\<lparr>downloads := downloads w + 1\<rparr>)
        (Finished e (Downloaded (e_uuid e) path (e_album_uuid e))) l)"
proof -
  have one: "thread_step env w (Counting e path) = (w, Storing e path (downloads w))" by simp
  have "thread_step env w (Storing e path (downloads w))
      = (w\<lparr>downloads := downloads w + 1\<rparr>, Finished e (Downloaded (e_uuid e) path (e_album_uuid e)))"
    by simp
  then have "(pool_step env n)\<^sup>*\<^sup>* (alone m es w (Storing e path (downloads w)) l)
     (alone m es (w\<lparr>downloads := downloads w + 1\<rparr>)
        (Finished e (Downloaded (e_uuid e) path (e_album_uuid e))) l)"
    by (rule alone_last) simp
  with one show ?thesis by (rule alone_then) simp
qed

lemma alone_fetching:
  assumes "\<not> isfile (files w) (e_path e)"
  shows "(pool_step env n)\<^sup>*\<^sup>* (alone m es w (Checking e) l)
     (alone m es (w\<lparr>requested := requested w @ [e_url e]\<rparr>)
        (case get env (e_url e) of
           Raises \<Rightarrow> Finished e Failed
         | Returns r \<Rightarrow> if status_code r = 200 then Naming e r 0 else Finished e Failed) l)"
proof -
  from assms have one: "thread_step env w (Checking e) = (w, Fetching e)" by simp
  have "thread_step env w (Fetching e) = (w\<lparr>requested := requested w @ [e_url e]\<rparr>,
        case get env (e_url e) of
           Raises \<Rightarrow> Finished e Failed
         | Returns r \<Rightarrow> if status_code r = 200 then Naming e r 0 else Finished e Failed)"
    by simp
  then have "(pool_step env n)\<^sup>*\<^sup>* (alone m es w (Fetching e) l)
     (alone m es (w\<lparr>requested := requested w @ [e_url e]\<rparr>)
        (case get env (e_url e) of
           Raises \<Rightarrow> Finished e Failed
         | Returns r \<Rightarrow> if status_code r = 200 then Naming e r 0 else Finished e Failed) l)"
    by (rule alone_last) simp
  with one show ?thesis by (rule alone_then) simp
qed

lemma alone_opening:
  assumes "\<not> isfile (files w) (e_path e)" and "get env (e_url e) = Returns r"
    and "status_code r = 200"
  shows "(pool_step env n)\<^sup>*\<^sup>* (alone m es w (Checking e) l)
     (alone m es (w\<lparr>requested := requested w @ [e_url e]\<rparr>)
        (Opening e r (auto_filename (files w) (e_path e) 0)) l)"
proof -
  let ?w1 = "w\<lparr>requested := requested w @ [e_url e]\<rparr>"
  from alone_fetching [OF assms(1), of env n m es l] assms(2,3)
  have "(pool_step env n)\<^sup>*\<^sup>* (alone m es w (Checking e) l) (alone m es ?w1 (Naming e r 0) l)"
    by simp
  moreover from alone_names [of env n m es ?w1 e r l]
  have "(pool_step env n)\<^sup>*\<^sup>* (alone m es ?w1 (Naming e r 0) l)
      (alone m es ?w1 (Opening e r (auto_filename (files w) (e_path e) 0)) l)"
    by simp
  ultimately show ?thesis by (rule rtranclp_trans)
qed

lemma alone_written:
  assumes "open_ok env path" and "fmlookup (files w) path \<noteq> Some Dir"
  shows "(pool_step env n)\<^sup>*\<^sup>* (alone m es w (Opening e r path) l)
     (alone m es (w\<lparr>files := fmupd path (File (Raw (concat (chunks r)))) (files w)\<rparr>)
        (Streaming e r path (length (concat (chunks r))) []) l)"
proof -
  from assms have one: "thread_step env w (Opening e r path)
      = (w\<lparr>files := fmupd path (File (Raw [])) (files w)\<rparr>, Streaming e r path 0 (chunks r))"
    by simp
  from alone_streaming [where env = env and n = n and m = m and es = es and w = w and path = path
      and b = "[]" and fs = "files w" and e = e and r = r and rest = "chunks r" and l = l]
  have "(pool_step env n)\<^sup>*\<^sup>*
     (alone m es (w\<lparr>files := fmupd path (File (Raw [])) (files w)\<rparr>) (Streaming e r path 0 (chunks r)) l)
     (alone m es (w\<lparr>files := fmupd path (File (Raw (concat (chunks r)))) (files w)\<rparr>)
        (Streaming e r path (length (concat (chunks r))) []) l)"
    by simp
  with one show ?thesis by (rule alone_then) simp
qed

lemma alone_worker:
  "\<exists>l'. (pool_step env n)\<^sup>*\<^sup>* (alone m es w (Checking e) l)
       (alone m es (snd (download_media_item env w e))
          (Finished e (fst (download_media_item env w e))) l')"
proof (cases rule: worker_cases [where w = w and entry = e and env = env])
  case present
  then have "thread_step env w (Checking e) = (w, Finished e AlreadyPresent)" by simp
  then have "(pool_step env n)\<^sup>*\<^sup>* (alone m es w (Checking e) l)
      (alone m es w (Finished e AlreadyPresent) l)"
    by (rule alone_last) simp
  with present(2) show ?thesis by (intro exI [of _ l]) simp
next
  case raised
  from alone_fetching [OF raised(1), of env n m es l] raised(2,3)
  show ?thesis by (intro exI [of _ l]) simp
next
  case (status r)
  from alone_fetching [OF status(1), of env n m es l] status(2,3,4)
  show ?thesis by (intro exI [of _ l]) simp
next
  case (unwritten r fs1)
  let ?w1 = "w\<lparr>requested := requested w @ [e_url e]\<rparr>"
  let ?path = "auto_filename (files w) (e_path e) 0"
  note opened = alone_opening [OF unwritten(1,2,3), of n m es l]
  show ?thesis
  proof (cases "\<not> open_ok env ?path \<or> fmlookup (files w) ?path = Some Dir")
    case True
    with unwritten(4) have fs1: "fs1 = files w" by (auto simp: write_response_def)
    from True have "thread_step env ?w1 (Opening e r ?path) = (?w1, Finished e Failed)" by auto
    then have "(pool_step env n)\<^sup>*\<^sup>* (alone m es ?w1 (Opening e r ?path) l)
        (alone m es ?w1 (Finished e Failed) l)"
      by (rule alone_last) simp
    with opened have "(pool_step env n)\<^sup>*\<^sup>* (alone m es w (Checking e) l)
        (alone m es ?w1 (Finished e Failed) l)"
      by (rule rtranclp_trans)
    with unwritten(5) fs1 show ?thesis by (intro exI [of _ l]) simp
  next
    case False
    with unwritten(4) have breaks: "stream_breaks r"
      and fs1: "fs1 = fmupd ?path (File (Raw (concat (chunks r)))) (files w)"
      by (auto simp: write_response_def)
    let ?w2 = "?w1\<lparr>files := fmupd ?path (File (Raw (concat (chunks r)))) (files ?w1)\<rparr>"
    from False have "open_ok env ?path" "fmlookup (files ?w1) ?path \<noteq> Some Dir" by simp_all
    note written = alone_written [OF this, of n m es e r l]
    from breaks have "thread_step env ?w2 (Streaming e r ?path (length (concat (chunks r))) [])
        = (?w2, Finished e Failed)" by simp
    then have "(pool_step env n)\<^sup>*\<^sup>*
        (alone m es ?w2 (Streaming e r ?path (length (concat (chunks r))) []) l)
        (alone m es ?w2 (Finished e Failed) l)"
      by (rule alone_last) (simp add: breaks)
    with written have "(pool_step env n)\<^sup>*\<^sup>* (alone m es ?w1 (Opening e r ?path) l)
        (alone m es ?w2 (Finished e Failed) l)"
      by (rule rtranclp_trans)
    with opened have "(pool_step env n)\<^sup>*\<^sup>* (alone m es w (Checking e) l)
        (alone m es ?w2 (Finished e Failed) l)"
      by (rule rtranclp_trans)
    with unwritten(5) fs1 show ?thesis by (intro exI [of _ l]) simp
  qed
next
  case (unclosed r fs1 mode fs2)
  let ?w1 = "w\<lparr>requested := requested w @ [e_url e]\<rparr>"
  let ?path = "auto_filename (files w) (e_path e) 0"
  let ?w2 = "?w1\<lparr>files := fs1\<rparr>"
  note opened = alone_opening [OF unclosed(1,2,3), of n m es l]
  from unclosed(4) have ok: "open_ok env ?path" "fmlookup (files ?w1) ?path \<noteq> Some Dir"
    and flows: "\<not> stream_breaks r"
    and fs1: "fs1 = fmupd ?path (File (Raw (concat (chunks r)))) (files ?w1)"
    by (auto simp: write_response_def split: if_splits)
  note written = alone_written [OF ok, of n m es e r l]
  from flows
  have "pool_step env n (alone m es ?w2 (Streaming e r ?path (length (concat (chunks r))) []) l)
      (alone m es ?w2 (Tagging e ?path) (l @ [(e, ?path)]))"
    using alone_step [of env ?w2 "Streaming e r ?path (length (concat (chunks r))) []" ?w2
        "Tagging e ?path" n m es l]
    by simp
  moreover from unclosed(5) have "metadata_block env (files ?w2) ?path e = (False, mode, fs2)"
    by simp
  from alone_tagging [OF this, of n m es "l @ [(e, ?path)]"]
  have "(pool_step env n)\<^sup>*\<^sup>* (alone m es ?w2 (Tagging e ?path) (l @ [(e, ?path)]))
      (alone m es (?w2\<lparr>files := fs2\<rparr>) (Finished e Failed) (l @ [(e, ?path)]))"
    by simp
  ultimately have "(pool_step env n)\<^sup>*\<^sup>*
      (alone m es ?w2 (Streaming e r ?path (length (concat (chunks r))) []) l)
      (alone m es (?w2\<lparr>files := fs2\<rparr>) (Finished e Failed) (l @ [(e, ?path)]))"
    by (rule converse_rtranclp_into_rtranclp)
  with written have "(pool_step env n)\<^sup>*\<^sup>* (alone m es ?w1 (Opening e r ?path) l)
      (alone m es (?w2\<lparr>files := fs2\<rparr>) (Finished e Failed) (l @ [(e, ?path)]))"
    by (simp add: fs1)
  with opened have "(pool_step env n)\<^sup>*\<^sup>* (alone m es w (Checking e) l)
      (alone m es (?w2\<lparr>files := fs2\<rparr>) (Finished e Failed) (l @ [(e, ?path)]))"
    by (rule rtranclp_trans)
  with unclosed(6) show ?thesis by (intro exI [of _ "l @ [(e, ?path)]"]) simp
next
  case (downloaded r fs1 mode fs2)
  let ?w1 = "w\<lparr>requested := requested w @ [e_url e]\<rparr>"
  let ?path = "auto_filename (files w) (e_path e) 0"
  let ?w2 = "?w1\<lparr>files := fs1\<rparr>"
  let ?w3 = "?w2\<lparr>files := fs2\<rparr>"
  let ?out = "Downloaded (e_uuid e) ?path (e_album_uuid e)"
  note opened = alone_opening [OF downloaded(1,2,3), of n m es l]
  from downloaded(4) have ok: "open_ok env ?path" "fmlookup (files ?w1) ?path \<noteq> Some Dir"
    and flows: "\<not> stream_breaks r"
    and fs1: "fs1 = fmupd ?path (File (Raw (concat (chunks r)))) (files ?w1)"
    by (auto simp: write_response_def split: if_splits)
  note written = alone_written [OF ok, of n m es e r l]
  from flows
  have "pool_step env n (alone m es ?w2 (Streaming e r ?path (length (concat (chunks r))) []) l)
      (alone m es ?w2 (Tagging e ?path) (l @ [(e, ?path)]))"
    using alone_step [of env ?w2 "Streaming e r ?path (length (concat (chunks r))) []" ?w2
        "Tagging e ?path" n m es l]
    by simp
  moreover from downloaded(5) have "metadata_block env (files ?w2) ?path e = (True, mode, fs2)"
    by simp
  from alone_tagging [OF this, of n m es "l @ [(e, ?path)]"]
  have "(pool_step env n)\<^sup>*\<^sup>* (alone m es ?w2 (Tagging e ?path) (l @ [(e, ?path)]))
      (alone m es ?w3 (Counting e ?path) (l @ [(e, ?path)]))"
    by simp
  ultimately have "(pool_step env n)\<^sup>*\<^sup>*
      (alone m es ?w2 (Streaming e r ?path (length (concat (chunks r))) []) l)
      (alone m es ?w3 (Counting e ?path) (l @ [(e, ?path)]))"
    by (rule converse_rtranclp_into_rtranclp)
  with written have "(pool_step env n)\<^sup>*\<^sup>* (alone m es ?w1 (Opening e r ?path) l)
      (alone m es ?w3 (Counting e ?path) (l @ [(e, ?path)]))"
    by (simp add: fs1)
  with opened have "(pool_step env n)\<^sup>*\<^sup>* (alone m es w (Checking e) l)
      (alone m es ?w3 (Counting e ?path) (l @ [(e, ?path)]))"
    by (rule rtranclp_trans)
  from this alone_counting [of env n m es ?w3 e ?path "l @ [(e, ?path)]"]
  have "(pool_step env n)\<^sup>*\<^sup>* (alone m es w (Checking e) l)
      (alone m es (?w3\<lparr>downloads := downloads ?w3 + 1\<rparr>) (Finished e ?out) (l @ [(e, ?path)]))"
    by (rule rtranclp_trans)
  with downloaded(6) show ?thesis by (intro exI [of _ "l @ [(e, ?path)]"]) simp
qed

lemma drain_Cons: "drain media (out # outs) = drain (drain media [out]) outs"
  by (cases out) simp_all

lemma run_pool_is_run:
  assumes "0 < n"
  shows "\<exists>l'. (pool_step env n)\<^sup>*\<^sup>*
      \<lparr>p_world = w, p_media = m, p_waiting = entries, p_threads = [], p_ready = [], p_streamed = l\<rparr>
      \<lparr>p_world = snd (run_pool env w entries), p_media = drain m (fst (run_pool env w entries)),
       p_waiting = [], p_threads = [], p_ready = [], p_streamed = l'\<rparr>"
proof (induction entries arbitrary: w m l)
  case Nil
  show ?case by (intro exI [of _ l]) simp
next
  case (Cons e es)
  let ?out = "fst (download_media_item env w e)"
  let ?w1 = "snd (download_media_item env w e)"
  let ?s0 = "\<lparr>p_world = w, p_media = m, p_waiting = e # es, p_threads = [], p_ready = [],
     p_streamed = l\<rparr>"
  have "pool_step env n ?s0 (alone m es w (Checking e) l)"
    using pool_step.start [of ?s0 e es n env] assms by (simp add: alone_def)
  moreover obtain l1 where
    "(pool_step env n)\<^sup>*\<^sup>* (alone m es w (Checking e) l) (alone m es ?w1 (Finished e ?out) l1)"
    using alone_worker [of env n m es w e l] by blast
  ultimately have a: "(pool_step env n)\<^sup>*\<^sup>* ?s0 (alone m es ?w1 (Finished e ?out) l1)"
    by (rule converse_rtranclp_into_rtranclp)
  let ?s2 = "\<lparr>p_world = ?w1, p_media = m, p_waiting = es, p_threads = [], p_ready = [?out],
     p_streamed = l1\<rparr>"
  have b: "pool_step env n (alone m es ?w1 (Finished e ?out) l1) ?s2"
    using pool_step.finish [of "alone m es ?w1 (Finished e ?out) l1" "[]" e ?out "[]" env n]
    by (simp add: alone_def)
  let ?s3 = "\<lparr>p_world = ?w1, p_media = drain m [?out], p_waiting = es, p_threads = [],
     p_ready = [], p_streamed = l1\<rparr>"
  have c: "pool_step env n ?s2 ?s3"
    using pool_step.take [of ?s2 ?out "[]" env n] by simp
  from a b have "(pool_step env n)\<^sup>*\<^sup>* ?s0 ?s2" by (rule rtranclp.rtrancl_into_rtrancl)
  from this c have d: "(pool_step env n)\<^sup>*\<^sup>* ?s0 ?s3" by (rule rtranclp.rtrancl_into_rtrancl)
  from Cons [of ?w1 "drain m [?out]" l1]
  obtain l' where "(pool_step env n)\<^sup>*\<^sup>* ?s3
      \<lparr>p_world = snd (run_pool env ?w1 es), p_media = drain (drain m [?out]) (fst (run_pool env ?w1 es)),
       p_waiting = [], p_threads = [], p_ready = [], p_streamed = l'\<rparr>"
    by blast
  with d have "(pool_step env n)\<^sup>*\<^sup>* ?s0
      \<lparr>p_world = snd (run_pool env ?w1 es), p_media = drain (drain m [?out]) (fst (run_pool env ?w1 es)),
       p_waiting = [], p_threads = [], p_ready = [], p_streamed = l'\<rparr>"
    by (rule rtranclp_trans)
  moreover have r: "snd (run_pool env w (e # es)) = snd (run_pool env ?w1 es)"
      "fst (run_pool env w (e # es)) = ?out # fst (run_pool env ?w1 es)"
    by (simp_all add: run_pool_Cons del: run_pool.simps)
  have "drain m (fst (run_pool env w (e # es))) = drain (drain m [?out]) (fst (run_pool env ?w1 es))"
    unfolding r(2) by (rule drain_Cons)
  ultimately show ?case
    by (intro exI [of _ l']) (simp only: r(1))
qed

lemma reachable_steps:
  assumes "(pool_step env n)\<^sup>*\<^sup>* s s'" and "reachable sanitize env n w0 media0 listings s"
  shows "reachable sanitize env n w0 media0 listings s'"
  using assms by (induction rule: rtranclp_induct) (auto intro: reachable.step)

lemma reachable_archive:
  assumes "reachable sanitize env n w0 media0 listings s" and "idle s" and "0 < n"
    and "archive_collection sanitize env (p_world s, p_media s) media_items dir album = Inr (w', m')"
  shows "\<exists>l'. reachable sanitize env n w0 media0 (listings @ [media_items])
      \<lparr>p_world = w', p_media = m', p_waiting = [], p_threads = [], p_ready = [], p_streamed = l'\<rparr>"
proof -
  from assms(4) obtain entries
    where entries: "process_media_items sanitize (p_media s) media_items dir album = Inr entries"
      and result: "download env (p_world s, p_media s) entries = (w', m')"
    by (auto simp: archive_collection_def split: sum.splits)
  from assms(2) have s: "s\<lparr>p_waiting := entries\<rparr> = \<lparr>p_world = p_world s, p_media = p_media s,
      p_waiting = entries, p_threads = [], p_ready = [], p_streamed = p_streamed s\<rparr>"
    by (cases s) (simp add: idle_def)
  from reachable.collection [OF assms(1,2) entries] s
  have start: "reachable sanitize env n w0 media0 (listings @ [media_items])
      \<lparr>p_world = p_world s, p_media = p_media s,
      p_waiting = entries, p_threads = [], p_ready = [], p_streamed = p_streamed s\<rparr>"
    by simp
  from run_pool_is_run [OF assms(3), of env "p_world s" "p_media s" entries "p_streamed s"]
  obtain l' where "(pool_step env n)\<^sup>*\<^sup>*
      \<lparr>p_world = p_world s, p_media = p_media s,
      p_waiting = entries, p_threads = [], p_ready = [], p_streamed = p_streamed s\<rparr>
      \<lparr>p_world = snd (run_pool env (p_world s) entries),
       p_media = drain (p_media s) (fst (run_pool env (p_world s) entries)),
       p_waiting = [], p_threads = [], p_ready = [], p_streamed = l'\<rparr>"
    by blast
  from this start have "reachable sanitize env n w0 media0 (listings @ [media_items])
      \<lparr>p_world = snd (run_pool env (p_world s) entries),
       p_media = drain (p_media s) (fst (run_pool env (p_world s) entries)),
       p_waiting = [], p_threads = [], p_ready = [], p_streamed = l'\<rparr>"
    by (rule reachable_steps)
  moreover from result have "w' = snd (run_pool env (p_world s) entries)"
      "m' = drain (p_media s) (fst (run_pool env (p_world s) entries))"
    by (simp_all add: download_def case_prod_beta)
  ultimately show ?thesis by (intro exI [of _ l']) simp
qed


lemma act_complete:
  assumes "pool_step env n s s'"
  shows "\<exists>a. act env n s a = Some s'"
  using assms
proof cases
  case (start e es)
  then have "act env n s Start = Some s'" by simp
  then show ?thesis ..
next
  case (run before t after w t')
  then have "act env n s (Run (length before)) = Some s'" by simp
  then show ?thesis ..
next
  case (finish before e out after)
  then have "act env n s (Finish (length before)) = Some s'" by simp
  then show ?thesis ..
next
  case (take out outs)
  then have "act env n s Take = Some s'" by simp
  then show ?thesis ..
qed









section \<open>The invariant of the media table\<close>




















section \<open>Running the pipeline twice\<close>




lemma inserted_rows_present [simp]: "inserted_rows (replicate n AlreadyPresent) = []"
  by (induction n) simp_all








section \<open>Failures of a task\<close>

lemma worker_files_only:
  assumes "files w = files v"
  shows "fst (download_media_item env w entry) = fst (download_media_item env v entry)
       \<and> files (snd (download_media_item env w entry)) = files (snd (download_media_item env v entry))"
  using assms
  by (simp add: download_media_item_def Let_def case_prod_beta split: raising.splits)

lemma run_pool_files_only:
  assumes "files w = files v"
  shows "fst (run_pool env w entries) = fst (run_pool env v entries)
       \<and> files (snd (run_pool env w entries)) = files (snd (run_pool env v entries))"
  using assms
proof (induction entries arbitrary: w v)
  case Nil
  then show ?case by simp
next
  case (Cons entry entries)
  note step = worker_files_only [OF Cons.prems, of env entry]
  from step have "files (snd (download_media_item env w entry))
      = files (snd (download_media_item env v entry))" by (rule conjunct2)
  from Cons.IH [OF this] step show ?case by (simp add: case_prod_beta)
qed

lemma run_pool_append:
  "fst (run_pool env w (xs @ ys))
     = fst (run_pool env w xs) @ fst (run_pool env (snd (run_pool env w xs)) ys)
   \<and> snd (run_pool env w (xs @ ys)) = snd (run_pool env (snd (run_pool env w xs)) ys)"
  by (induction xs arbitrary: w) (simp_all add: case_prod_beta)

text \<open>The fetch of an entry fails: \<^verbatim>\<open>requests.get\<close> raises or the status is not 200.\<close>

lemma worker_fetch_fails:
  assumes "get env (e_url entry) = Raises
         \<or> (\<exists>r. get env (e_url entry) = Returns r \<and> status_code r \<noteq> 200)"
  shows "files (snd (download_media_item env w entry)) = files w"
    and "fst (download_media_item env w entry) = Failed
       \<or> fst (download_media_item env w entry) = AlreadyPresent"
    and "\<not> isfile (files w) (e_path entry) \<Longrightarrow>
         download_media_item env w entry = (Failed, w\<lparr>requested := requested w @ [e_url entry]\<rparr>)"
  using assms by (auto simp: download_media_item_def Let_def)

lemma metadata_block_returns:
  assumes "xmpfiles_ok (libxmp env path) \<longrightarrow> close_file_ok (libxmp env path)"
  shows "fst (metadata_block env fs path entry)"
  using assms
  by (auto simp: metadata_block_def embed_metadata_def Let_def case_prod_beta
      split: raising.splits)

lemma drain_skips_failed: "drain media (outs1 @ Failed # outs2) = drain media (outs1 @ outs2)"
  by (simp add: drain_inserted inserted_rows_append)

lemma fetch_failure_is_isolated:
  assumes "get env (e_url entry) = Raises
         \<or> (\<exists>r. get env (e_url entry) = Returns r \<and> status_code r \<noteq> 200)"
  shows "snd (download env (w, media) (pre @ entry # post))
           = snd (download env (w, media) (pre @ post))"
    and "files (fst (download env (w, media) (pre @ entry # post)))
           = files (fst (download env (w, media) (pre @ post)))"
    and "\<exists>out. (out = Failed \<or> out = AlreadyPresent)
           \<and> fst (run_pool env w (pre @ entry # post))
               = take (length pre) (fst (run_pool env w (pre @ post))) @ out
                   # drop (length pre) (fst (run_pool env w (pre @ post)))"
proof -
  let ?w1 = "snd (run_pool env w pre)"
  let ?out = "fst (download_media_item env ?w1 entry)"
  let ?w2 = "snd (download_media_item env ?w1 entry)"
  have same: "files ?w2 = files ?w1" using assms by (rule worker_fetch_fails(1))
  note rest = run_pool_files_only [OF same, of env post]
  have kind: "?out = Failed \<or> ?out = AlreadyPresent" using assms by (rule worker_fetch_fails(2))
  have outs_with: "fst (run_pool env w (pre @ entry # post))
      = fst (run_pool env w pre) @ ?out # fst (run_pool env ?w1 post)"
    using run_pool_append [of env w pre "entry # post"] rest
    by (simp add: case_prod_beta)
  have outs_without: "fst (run_pool env w (pre @ post))
      = fst (run_pool env w pre) @ fst (run_pool env ?w1 post)"
    using run_pool_append [of env w pre post] by simp
  have files_with: "files (snd (run_pool env w (pre @ entry # post)))
      = files (snd (run_pool env ?w1 post))"
    using run_pool_append [of env w pre "entry # post"] rest
    by (simp add: case_prod_beta)
  have files_without: "snd (run_pool env w (pre @ post)) = snd (run_pool env ?w1 post)"
    using run_pool_append [of env w pre post] by simp
  have rows: "inserted_rows (fst (run_pool env w (pre @ entry # post)))
      = inserted_rows (fst (run_pool env w (pre @ post)))"
    using kind by (auto simp: outs_with outs_without inserted_rows_append)
  show "snd (download env (w, media) (pre @ entry # post))
           = snd (download env (w, media) (pre @ post))"
    by (simp only: download_eq snd_conv rows)
  show "files (fst (download env (w, media) (pre @ entry # post)))
           = files (fst (download env (w, media) (pre @ post)))"
    by (simp only: download_eq fst_conv files_with files_without)
  have "fst (run_pool env w (pre @ entry # post))
               = take (length pre) (fst (run_pool env w (pre @ post))) @ ?out
                   # drop (length pre) (fst (run_pool env w (pre @ post)))"
    by (simp add: outs_with outs_without run_pool_length)
  with kind show "\<exists>out. (out = Failed \<or> out = AlreadyPresent)
           \<and> fst (run_pool env w (pre @ entry # post))
               = take (length pre) (fst (run_pool env w (pre @ post))) @ out
                   # drop (length pre) (fst (run_pool env w (pre @ post)))"
    by (intro exI [of _ ?out] conjI)
qed

lemmas worker_eval = download_media_item_def calm_def nothing_def task_def isfile_def
      auto_filename.simps filename_candidate_def exists_path_def write_response_def Let_def
      metadata_block_def embed_metadata_def set_properties_def saved_in_place_def truthy_def
      write_sidecar_def put_in_place_def with_packet_def replace_Z_def

text \<open>
  Claim C3, as the code has it.  An entry whose fetch fails (\<^verbatim>\<open>requests.get\<close> raises, or the
  status is not 200) ends as \<open>Failed\<close> with no file changed; the table and the files after
  the batch are those of the batch without the entry, and so are the outcomes of the other
  entries.  A raise of \<^verbatim>\<open>write_response\<close> ends the entry as \<open>Failed\<close> too.  A raise inside
  the metadata block does not: as long as the handle can be closed the entry ends as
  \<open>Downloaded\<close>.  The loop inserts nothing for a \<open>Failed\<close> outcome.
\<close>

theorem failed_task_is_isolated:
  "(get env (e_url entry) = Raises
      \<or> (\<exists>r. get env (e_url entry) = Returns r \<and> status_code r \<noteq> 200) \<longrightarrow>
      (\<not> isfile (files w) (e_path entry) \<longrightarrow>
         download_media_item env w entry
           = (Failed, w\<lparr>requested := requested w @ [e_url entry]\<rparr>))
      \<and> snd (download env (w, media) (pre @ entry # post))
           = snd (download env (w, media) (pre @ post))
      \<and> files (fst (download env (w, media) (pre @ entry # post)))
           = files (fst (download env (w, media) (pre @ post)))
      \<and> (\<exists>out. (out = Failed \<or> out = AlreadyPresent)
           \<and> fst (run_pool env w (pre @ entry # post))
               = take (length pre) (fst (run_pool env w (pre @ post))) @ out
                   # drop (length pre) (fst (run_pool env w (pre @ post)))))
   \<and> (\<forall>r. \<not> isfile (files w) (e_path entry) \<and> get env (e_url entry) = Returns r
          \<and> status_code r = 200
          \<and> \<not> fst (write_response env (files w) r (auto_filename (files w) (e_path entry) 0)) \<longrightarrow>
          fst (download_media_item env w entry) = Failed)
   \<and> (\<forall>r. \<not> isfile (files w) (e_path entry) \<and> get env (e_url entry) = Returns r
          \<and> status_code r = 200
          \<and> fst (write_response env (files w) r (auto_filename (files w) (e_path entry) 0))
          \<and> (xmpfiles_ok (libxmp env (auto_filename (files w) (e_path entry) 0)) \<longrightarrow>
               close_file_ok (libxmp env (auto_filename (files w) (e_path entry) 0))) \<longrightarrow>
          fst (download_media_item env w entry)
            = Downloaded (e_uuid entry) (auto_filename (files w) (e_path entry) 0)
                (e_album_uuid entry))
   \<and> drain media (outs1 @ Failed # outs2) = drain media (outs1 @ outs2)"
proof (intro conjI impI allI)
  assume f: "get env (e_url entry) = Raises
      \<or> (\<exists>r. get env (e_url entry) = Returns r \<and> status_code r \<noteq> 200)"
  show "snd (download env (w, media) (pre @ entry # post))
           = snd (download env (w, media) (pre @ post))"
    using f by (rule fetch_failure_is_isolated(1))
  show "files (fst (download env (w, media) (pre @ entry # post)))
           = files (fst (download env (w, media) (pre @ post)))"
    using f by (rule fetch_failure_is_isolated(2))
  show "\<exists>out. (out = Failed \<or> out = AlreadyPresent)
           \<and> fst (run_pool env w (pre @ entry # post))
               = take (length pre) (fst (run_pool env w (pre @ post))) @ out
                   # drop (length pre) (fst (run_pool env w (pre @ post)))"
    using f by (rule fetch_failure_is_isolated(3))
  assume "\<not> isfile (files w) (e_path entry)"
  with f show "download_media_item env w entry
           = (Failed, w\<lparr>requested := requested w @ [e_url entry]\<rparr>)"
    by (rule worker_fetch_fails(3))
next
  fix r
  assume "\<not> isfile (files w) (e_path entry) \<and> get env (e_url entry) = Returns r
          \<and> status_code r = 200
          \<and> \<not> fst (write_response env (files w) r (auto_filename (files w) (e_path entry) 0))"
  then show "fst (download_media_item env w entry) = Failed"
    by (simp add: download_media_item_def Let_def case_prod_beta)
next
  fix r
  let ?path = "auto_filename (files w) (e_path entry) 0"
  assume a: "\<not> isfile (files w) (e_path entry) \<and> get env (e_url entry) = Returns r
          \<and> status_code r = 200
          \<and> fst (write_response env (files w) r ?path)
          \<and> (xmpfiles_ok (libxmp env ?path) \<longrightarrow> close_file_ok (libxmp env ?path))"
  then have "fst (metadata_block env (snd (write_response env (files w) r ?path)) ?path entry)"
    by (intro metadata_block_returns) simp
  with a show "fst (download_media_item env w entry)
            = Downloaded (e_uuid entry) ?path (e_album_uuid entry)"
    by (simp add: download_media_item_def Let_def case_prod_beta)
next
  show "drain media (outs1 @ Failed # outs2) = drain media (outs1 @ outs2)"
    by (rule drain_skips_failed)
qed

theorem failed_task_is_isolated_witness:
  "get offline_a (e_url (task ''a'')) = Raises
   \<and> snd (download offline_a (nothing, []) [task ''a'', task ''b''])
       = snd (download offline_a (nothing, []) [task ''b''])
   \<and> snd (download offline_a (nothing, []) [task ''b'']) = [(''b'', ''Library/b.jpg'', None)]
   \<and> fst (download_media_item stubborn nothing (task ''a''))
       = Downloaded ''a'' ''Library/a.jpg'' None"
proof -
  have f: "get offline_a (e_url (task ''a'')) = Raises"
    by (simp add: offline_a_def task_def calm_def)
  then have "get offline_a (e_url (task ''a'')) = Raises
      \<or> (\<exists>r. get offline_a (e_url (task ''a'')) = Returns r \<and> status_code r \<noteq> 200)" by simp
  from failed_task_is_isolated [of offline_a "task ''a''" nothing "[]" "[]" "[task ''b'']",
      THEN conjunct1, THEN mp, OF this]
  have same: "snd (download offline_a (nothing, []) [task ''a'', task ''b''])
       = snd (download offline_a (nothing, []) [task ''b''])"
    by simp
  have "fst (download_media_item offline_a nothing (task ''b''))
      = Downloaded ''b'' ''Library/b.jpg'' None"
    by (simp add: worker_eval offline_a_def)
  then have alone: "snd (download offline_a (nothing, []) [task ''b''])
      = [(''b'', ''Library/b.jpg'', None)]"
    by (simp add: download_eq case_prod_beta)
  have w: "\<not> isfile (files nothing) (e_path (task ''a''))
          \<and> get stubborn (e_url (task ''a''))
              = Returns \<lparr>status_code = 200, chunks = [''ab'', ''cd''], stream_breaks = False\<rparr>
          \<and> status_code \<lparr>status_code = 200, chunks = [''ab'', ''cd''], stream_breaks = False\<rparr> = 200
          \<and> fst (write_response stubborn (files nothing)
                \<lparr>status_code = 200, chunks = [''ab'', ''cd''], stream_breaks = False\<rparr>
                (auto_filename (files nothing) (e_path (task ''a'')) 0))
          \<and> (xmpfiles_ok (libxmp stubborn (auto_filename (files nothing) (e_path (task ''a'')) 0)) \<longrightarrow>
               close_file_ok (libxmp stubborn (auto_filename (files nothing) (e_path (task ''a'')) 0)))"
    by (simp add: worker_eval stubborn_def)
  have p: "auto_filename (files nothing) (e_path (task ''a'')) 0 = ''Library/a.jpg''"
    by (simp add: worker_eval)
  from failed_task_is_isolated [of stubborn "task ''a''" nothing "[]" "[]" "[]" "[]" "[]",
      THEN conjunct2, THEN conjunct2, THEN conjunct1, THEN spec, THEN mp, OF w]
  have kept: "fst (download_media_item stubborn nothing (task ''a''))
       = Downloaded ''a'' ''Library/a.jpg'' None"
    by (simp only: p) (simp add: task_def)
  from f same alone kept show ?thesis by (intro conjI)
qed

text \<open>
  Claim C3 as stated fails twice.  A raise of \<^verbatim>\<open>set_property\<close> in the metadata step is not
  turned into \<open>Failed\<close>: the entry is \<open>Downloaded\<close> and gets its row.  And the outcome of
  another entry can depend on the failure: two items with the same file name share the
  target path, so the second is \<open>AlreadyPresent\<close> after the first was downloaded, is
  \<open>Downloaded\<close> when the fetch of the first fails, and is \<open>AlreadyPresent\<close> without ever being
  fetched when the stream of the first breaks and leaves a partial file, although alone
  it would have been downloaded.
\<close>

theorem failure_reaches_metadata_and_siblings:
  "set_properties stubborn (libxmp stubborn ''Library/a.jpg'') [] None
       (Some ''2020-01-01T00:00:00Z'') = Raises
   \<and> fst (run_pool stubborn nothing [task ''a'']) = [Downloaded ''a'' ''Library/a.jpg'' None]
   \<and> snd (download stubborn (nothing, []) [task ''a'']) = [(''a'', ''Library/a.jpg'', None)]
   \<and> fst (run_pool calm nothing [task ''a'', twin])
       = [Downloaded ''a'' ''Library/a.jpg'' None, AlreadyPresent]
   \<and> fst (run_pool offline_a nothing [task ''a'', twin])
       = [Failed, Downloaded ''b'' ''Library/a.jpg'' None]
   \<and> fst (run_pool broken_a nothing [task ''a'', twin]) = [Failed, AlreadyPresent]
   \<and> fst (run_pool broken_a nothing [twin]) = [Downloaded ''b'' ''Library/a.jpg'' None]"
proof (intro conjI)
  show "set_properties stubborn (libxmp stubborn ''Library/a.jpg'') [] None
       (Some ''2020-01-01T00:00:00Z'') = Raises"
    by (simp add: set_properties_def stubborn_def calm_def)
  show s: "fst (run_pool stubborn nothing [task ''a'']) = [Downloaded ''a'' ''Library/a.jpg'' None]"
    by (simp add: worker_eval stubborn_def case_prod_beta)
  show "snd (download stubborn (nothing, []) [task ''a'']) = [(''a'', ''Library/a.jpg'', None)]"
    by (simp only: download_eq snd_conv s) simp
  show "fst (run_pool calm nothing [task ''a'', twin])
       = [Downloaded ''a'' ''Library/a.jpg'' None, AlreadyPresent]"
    by (simp add: worker_eval twin_def case_prod_beta)
  show "fst (run_pool offline_a nothing [task ''a'', twin])
       = [Failed, Downloaded ''b'' ''Library/a.jpg'' None]"
    by (simp add: worker_eval twin_def offline_a_def case_prod_beta)
  show "fst (run_pool broken_a nothing [task ''a'', twin]) = [Failed, AlreadyPresent]"
    by (simp add: worker_eval twin_def broken_a_def case_prod_beta)
  show "fst (run_pool broken_a nothing [twin]) = [Downloaded ''b'' ''Library/a.jpg'' None]"
    by (simp add: worker_eval twin_def broken_a_def case_prod_beta)
qed

section \<open>The metadata block\<close>

lemma sidecar_is_another_path: "path @ ''.xmp'' \<noteq> path"
  by simp

lemma write_sidecar_effect:
  assumes "write_sidecar env calls fs path x = (mode, fs')"
  shows "mode \<noteq> In_place \<and> fmlookup fs' path = fmlookup fs path
       \<and> (mode = Sidecar \<longrightarrow> fs' = fmupd (path @ ''.xmp'') (File (Packet x)) fs)"
  using assms by (auto simp: write_sidecar_def Let_def split: if_splits)

lemma embed_metadata_effect:
  assumes "embed_metadata env fs path d c = (cleaned, mode, fs')"
  shows "(mode = In_place \<longrightarrow> cleaned \<and> (\<exists>x. fs' = put_in_place fs path x))
       \<and> (mode = Sidecar \<longrightarrow>
            (\<exists>x. fs' = fmupd (path @ ''.xmp'') (File (Packet x)) fs)
            \<and> fmlookup fs' path = fmlookup fs path)
       \<and> (mode = No_metadata \<longrightarrow> fmlookup fs' path = fmlookup fs path)
       \<and> (\<not> cleaned \<longrightarrow> xmpfiles_ok (libxmp env path) \<and> \<not> close_file_ok (libxmp env path))"
proof -
  let ?calls = "libxmp env path"
  let ?found = "if xmpfiles_ok ?calls
    then (case get_xmp ?calls of Returns x \<Rightarrow> x | Raises \<Rightarrow> None) else None"
  let ?fresh = "case ?found of None \<Rightarrow> [] | Some x \<Rightarrow> x"
  show ?thesis
  proof (cases "set_properties env ?calls ?fresh d c")
    case Raises
    with assms show ?thesis by (auto simp: embed_metadata_def Let_def)
  next
    case (Returns x)
    show ?thesis
    proof (cases "saved_in_place ?calls")
      case True
      with assms Returns show ?thesis by (auto simp: embed_metadata_def Let_def)
    next
      case False
      obtain m f where ws: "write_sidecar env ?calls fs path x = (m, f)"
        by (cases "write_sidecar env ?calls fs path x")
      from assms Returns False ws have "mode = m" "fs' = f"
        "cleaned = (\<not> xmpfiles_ok ?calls \<or> close_file_ok ?calls)"
        by (auto simp: embed_metadata_def Let_def)
      with write_sidecar_effect [OF ws] show ?thesis by auto
    qed
  qed
qed

text \<open>
  Claim C7 at the input where the code departs from it.  The file is written, \<^verbatim>\<open>put_xmp\<close>
  returns, the close with \<^verbatim>\<open>XMP_CLOSE_SAFEUPDATE\<close> raises (caught, so the sidecar is
  written) and the \<^verbatim>\<open>close_file\<close> of the \<^verbatim>\<open>finally\<close> clause raises too.  That last raise is
  outside every handler of the metadata block: the worker answers \<open>Failed\<close> although the
  media file and its sidecar are on disk, no row is inserted, and the next run finds the
  file and skips the item.  \<open>embed_metadata_effect\<close> above says what holds otherwise: the
  packet goes in place or into the sidecar, never both, the media file is untouched
  unless the packet went in place, and only a raise of that last close fails the task.
\<close>

theorem failed_close_fails_the_download:
  "fst (download_media_item unclosable nothing (task ''a'')) = Failed
   \<and> fmlookup (files (snd (download_media_item unclosable nothing (task ''a'')))) ''Library/a.jpg''
       = Some (File (Raw ''abcd''))
   \<and> fmlookup (files (snd (download_media_item unclosable nothing (task ''a''))))
         ''Library/a.jpg.xmp''
       = Some (File (Packet [(''exif:DateTimeOriginal'', ''2020-01-01T00:00:00+00:00''),
                             (''xmp:CreateDate'', ''2020-01-01T00:00:00+00:00'')]))
   \<and> snd (download unclosable (nothing, []) [task ''a'']) = []
   \<and> fst (download_media_item calm (snd (download_media_item unclosable nothing (task ''a'')))
            (task ''a'')) = AlreadyPresent"
proof -
  have w: "download_media_item unclosable nothing (task ''a'')
      = (Failed, \<lparr>files = fmupd ''Library/a.jpg.xmp''
            (File (Packet [(''exif:DateTimeOriginal'', ''2020-01-01T00:00:00+00:00''),
                           (''xmp:CreateDate'', ''2020-01-01T00:00:00+00:00'')]))
            (fmupd ''Library/a.jpg'' (File (Raw ''abcd'')) fmempty),
          requested = [''https://lh3/a=d''], downloads = 0\<rparr>)"
    by (simp add: worker_eval unclosable_def)
  show ?thesis
    by (simp add: w download_eq case_prod_beta) (simp add: download_media_item_def task_def isfile_def)
qed

theorem failed_close_fails_the_download_witness:
  "fst (download_media_item unclosable nothing (task ''a'')) = Failed
   \<and> snd (download unclosable (nothing, []) [task ''a'']) = []"
  using failed_close_fails_the_download by (intro conjI) (elim conjE, assumption)+

end
